theory Spec2Isabelle
  imports Complex_Main "HOL-Library.Multiset" "HOL-Library.Log_Nat"
begin

section \<open>Data model\<close>

text \<open>
  The blog backend keeps three collections in a document store: posts, comments and
  users. An ObjectId is modelled by its hexadecimal text (the controllers compare ids
  through \<^verbatim>\<open>toString()\<close>), a Date by its milliseconds since the epoch, a JavaScript string
  by the list of its characters, which are taken from U+0000 to U+00FF (\<open>CHR 0xA0\<close> is
  the no-break space), an optional field by \<open>option\<close> (\<open>None\<close> is \<^verbatim>\<open>undefined\<close>). A
  collection is the list of its documents in natural order. Request parameters are taken
  as already cast to an ObjectId.
\<close>

type_synonym oid = string
type_synonym date = int

section \<open>JavaScript numbers\<close>

text \<open>
  A JavaScript number is an IEEE 754 double. A finite double is the rational it denotes,
  and every arithmetic operation answers the double nearest to the exact result, a tie
  going to the double with the even significand. \<open>nearest_double\<close> is this rounding: a
  positive \<open>x\<close> with \<open>2^e \<le> x < 2^(e+1)\<close> is rounded to a multiple of \<open>2^(e-52)\<close>, and
  below the normal range to a multiple of \<open>2^(-1074)\<close>. The exponent has no upper end:
  the infinities and \<^verbatim>\<open>NaN\<close> are not values of the model.
\<close>

definition round_half_even :: "rat \<Rightarrow> int" where
  "round_half_even r =
     (let f = \<lfloor>r\<rfloor>; d = r - of_int f
      in if d < 1 / 2 then f else if 1 / 2 < d then f + 1 else if even f then f else f + 1)"

definition exponent :: "rat \<Rightarrow> int" where
  "exponent x = (if 1 \<le> x then bitlen \<lfloor>x\<rfloor> - 1 else - bitlen (\<lceil>1 / x\<rceil> - 1))"

definition quantum :: "rat \<Rightarrow> rat" where
  "quantum x = 2 powi (max (exponent x) (- 1022) - 52)"

definition nearest_pos :: "rat \<Rightarrow> rat" where
  "nearest_pos x = of_int (round_half_even (x / quantum x)) * quantum x"

definition nearest_double :: "rat \<Rightarrow> rat" where
  "nearest_double x =
     (if x = 0 then 0 else if 0 < x then nearest_pos x else - nearest_pos (- x))"

text \<open>The doubles are the rationals that the rounding leaves as they are.\<close>

typedef double = "{x :: rat. nearest_double x = x}"
  morphisms value_of Abs_double
  by (rule exI[of _ 0]) (simp add: nearest_double_def)

text \<open>
  \<open>number x\<close> is the double that a literal or an exact result \<open>x\<close> denotes. The four
  operations round their exact result.
\<close>

definition number :: "rat \<Rightarrow> double" where
  "number x = Abs_double (nearest_double x)"

definition num_add :: "double \<Rightarrow> double \<Rightarrow> double" where
  "num_add a b = number (value_of a + value_of b)"

definition num_sub :: "double \<Rightarrow> double \<Rightarrow> double" where
  "num_sub a b = number (value_of a - value_of b)"

definition num_mul :: "double \<Rightarrow> double \<Rightarrow> double" where
  "num_mul a b = number (value_of a * value_of b)"

definition num_div :: "double \<Rightarrow> double \<Rightarrow> double" where
  "num_div a b = number (value_of a / value_of b)"

text \<open>\<^verbatim>\<open>Math.max\<close> of two numbers.\<close>

definition num_max :: "double \<Rightarrow> double \<Rightarrow> double" where
  "num_max a b = (if value_of a \<le> value_of b then b else a)"

text \<open>
  The time value of a Date, as a number. It is exact for every instant a Date can hold
  (at most 8640000000000000 milliseconds from the epoch).
\<close>

definition time_value :: "date \<Rightarrow> double" where
  "time_value t = number (of_int t)"

section \<open>Documents\<close>

datatype post_status = Draft | Published

text \<open>PostSchema of the models directory.\<close>

record post =
  p_id :: oid
  title :: string
  slug :: string
  content_html :: string
  excerpt :: "string option"
  cover_image :: "string option"
  author :: oid
  tags :: "string list"
  category :: "string option"
  status :: post_status
  views :: double
  likes :: "oid list"
  created_at :: date
  updated_at :: date

text \<open>CommentSchema of the models directory.\<close>

record comment =
  c_id :: oid
  c_post :: oid
  c_user :: oid
  c_content :: string
  c_parent :: "oid option"
  c_replies :: "oid list"
  c_created_at :: date
  c_updated_at :: date

text \<open>
  Modelled from the spec: the User schema (models/User) is not among the sources. The
  spec lists its fields as name, email, bio, avatar and role; the controller reads and
  writes \<^verbatim>\<open>name\<close>, \<^verbatim>\<open>bio\<close>, \<^verbatim>\<open>avatar_url\<close> and reads \<^verbatim>\<open>email\<close>, \<^verbatim>\<open>role\<close>.
\<close>

record user =
  u_id :: oid
  name :: "string option"
  email :: string
  bio :: "string option"
  avatar_url :: "string option"
  role :: string

record store =
  posts :: "post list"
  comments :: "comment list"
  users :: "user list"

text \<open>
  What a handler answers when it does not succeed: the HTTP status with the literal
  message of the source, and for the catch-all 500 the kind of exception caught.
\<close>

datatype exn = TypeError | ValidationError | DuplicateKey

datatype failure =
    Status400 string
  | Status401 string
  | Status404 string
  | Status500 exn

section \<open>Strings\<close>

text \<open>
  \<^verbatim>\<open>toLowerCase\<close> on the characters up to U+00FF: the letters A to Z are mapped to a to
  z, the letters U+00C0 to U+00DE other than the multiplication sign U+00D7 to the
  character 32 places on, every other character stays.
\<close>

definition upper_letters :: string where
  "upper_letters = ''ABCDEFGHIJKLMNOPQRSTUVWXYZ''"

definition lower_letters :: string where
  "lower_letters = ''abcdefghijklmnopqrstuvwxyz''"

definition digits :: string where
  "digits = ''0123456789''"

definition latin_upper :: string where
  "latin_upper =
     [CHR 0xC0, CHR 0xC1, CHR 0xC2, CHR 0xC3, CHR 0xC4, CHR 0xC5, CHR 0xC6, CHR 0xC7,
      CHR 0xC8, CHR 0xC9, CHR 0xCA, CHR 0xCB, CHR 0xCC, CHR 0xCD, CHR 0xCE, CHR 0xCF,
      CHR 0xD0, CHR 0xD1, CHR 0xD2, CHR 0xD3, CHR 0xD4, CHR 0xD5, CHR 0xD6,
      CHR 0xD8, CHR 0xD9, CHR 0xDA, CHR 0xDB, CHR 0xDC, CHR 0xDD, CHR 0xDE]"

definition latin_lower :: string where
  "latin_lower =
     [CHR 0xE0, CHR 0xE1, CHR 0xE2, CHR 0xE3, CHR 0xE4, CHR 0xE5, CHR 0xE6, CHR 0xE7,
      CHR 0xE8, CHR 0xE9, CHR 0xEA, CHR 0xEB, CHR 0xEC, CHR 0xED, CHR 0xEE, CHR 0xEF,
      CHR 0xF0, CHR 0xF1, CHR 0xF2, CHR 0xF3, CHR 0xF4, CHR 0xF5, CHR 0xF6,
      CHR 0xF8, CHR 0xF9, CHR 0xFA, CHR 0xFB, CHR 0xFC, CHR 0xFD, CHR 0xFE]"

definition toLowerCase_char :: "char \<Rightarrow> char" where
  "toLowerCase_char c =
     (case map_of (zip (upper_letters @ latin_upper) (lower_letters @ latin_lower)) c of
        None \<Rightarrow> c
      | Some d \<Rightarrow> d)"

definition toLowerCase :: "string \<Rightarrow> string" where
  "toLowerCase s = map toLowerCase_char s"

text \<open>The character class \<^verbatim>\<open>[a-z0-9]\<close> of the slug's regular expression.\<close>

definition in_az09 :: "char \<Rightarrow> bool" where
  "in_az09 c = (c \<in> set lower_letters \<or> c \<in> set digits)"

text \<open>
  \<^verbatim>\<open>.replace(/[^a-z0-9]+/g, '-')\<close>: the scan goes left to right; a character of the
  class is copied, and at a character outside the class the greedy \<^verbatim>\<open>+\<close> consumes the
  whole run, which is replaced by one hyphen.
\<close>

function replace_non_az09 :: "string \<Rightarrow> string" where
  "replace_non_az09 [] = []"
| "replace_non_az09 (c # cs) =
     (if in_az09 c then c # replace_non_az09 cs
      else CHR ''-'' # replace_non_az09 (dropWhile (\<lambda>d. \<not> in_az09 d) cs))"
  by pat_completeness auto
termination
  by (relation "measure length") (auto simp: length_dropWhile_le less_Suc_eq_le)

text \<open>
  \<^verbatim>\<open>.replace(/(^-|-$)/g, '')\<close>: \<^verbatim>\<open>^-\<close> matches one hyphen at position 0, \<^verbatim>\<open>-$\<close> one
  hyphen at the last position; both matches are removed.
\<close>

definition replace_edge_hyphens :: "string \<Rightarrow> string" where
  "replace_edge_hyphens s =
     (let s1 = (case s of [] \<Rightarrow> [] | c # cs \<Rightarrow> if c = CHR ''-'' then cs else s)
      in if s1 \<noteq> [] \<and> last s1 = CHR ''-'' then butlast s1 else s1)"

text \<open>The slug of createPost.\<close>

definition slug_of_title :: "string \<Rightarrow> string" where
  "slug_of_title t = replace_edge_hyphens (replace_non_az09 (toLowerCase t))"

subsection \<open>The slug as the specification words it\<close>

text \<open>
  Lowercase the title, replace each maximal run of non-alphanumeric characters by one
  hyphen, trim all leading and trailing hyphens. The alphanumeric characters are the
  letters A to Z and a to z and the digits. A string is cut into its maximal runs of
  characters that agree on being alphanumeric.
\<close>

definition alphanumeric :: "char \<Rightarrow> bool" where
  "alphanumeric c = (c \<in> set upper_letters \<or> c \<in> set lower_letters \<or> c \<in> set digits)"

function maximal_runs :: "('a \<Rightarrow> bool) \<Rightarrow> 'a list \<Rightarrow> 'a list list" where
  "maximal_runs P [] = []"
| "maximal_runs P (x # xs) =
     (x # takeWhile (\<lambda>y. P y = P x) xs) # maximal_runs P (dropWhile (\<lambda>y. P y = P x) xs)"
  by pat_completeness auto
termination
  by (relation "measure (\<lambda>(P, xs). length xs)") (auto simp: length_dropWhile_le less_Suc_eq_le)

definition hyphenate_runs :: "string \<Rightarrow> string" where
  "hyphenate_runs s =
     concat (map (\<lambda>r. if alphanumeric (hd r) then r else ''-'') (maximal_runs alphanumeric s))"

definition trim_hyphens :: "string \<Rightarrow> string" where
  "trim_hyphens s =
     rev (dropWhile (\<lambda>c. c = CHR ''-'') (rev (dropWhile (\<lambda>c. c = CHR ''-'') s)))"

definition slug_spec :: "string \<Rightarrow> string" where
  "slug_spec t = trim_hyphens (hyphenate_runs (toLowerCase t))"

text \<open>No two hyphens stand side by side.\<close>

definition no_double :: "char \<Rightarrow> char \<Rightarrow> bool" where
  "no_double a b = (\<not> (a = CHR ''-'' \<and> b = CHR ''-''))"

text \<open>
  \<^verbatim>\<open>trim\<close> removes white space at both ends. The white space up to U+00FF: space,
  tab, line feed, vertical tab, form feed, carriage return and the no-break space.
\<close>

definition is_white_space :: "char \<Rightarrow> bool" where
  "is_white_space c =
     (c \<in> set [CHR '' '', CHR 0x09, CHR 0x0A, CHR 0x0B, CHR 0x0C, CHR 0x0D, CHR 0xA0])"

definition trim :: "string \<Rightarrow> string" where
  "trim s = rev (dropWhile is_white_space (rev (dropWhile is_white_space s)))"

text \<open>
  A string-valued field of a request body: \<^verbatim>\<open>undefined\<close> and the empty string are
  falsy, every other string is truthy. \<open>or_else a b\<close> is \<^verbatim>\<open>a || b\<close>.
\<close>

definition truthy :: "string option \<Rightarrow> bool" where
  "truthy v = (case v of None \<Rightarrow> False | Some s \<Rightarrow> s \<noteq> [])"

definition or_else :: "string option \<Rightarrow> string option \<Rightarrow> string option" where
  "or_else a b = (if truthy a then a else b)"

text \<open>\<open>or_string a b\<close> is \<^verbatim>\<open>a || b\<close> for a string \<open>b\<close>.\<close>

definition or_string :: "string option \<Rightarrow> string \<Rightarrow> string" where
  "or_string a b = (case a of None \<Rightarrow> b | Some s \<Rightarrow> if s = [] then b else s)"

text \<open>
  \<^verbatim>\<open>parseInt\<close> with no radix: leading white space is skipped, a sign is read, a prefix
  \<^verbatim>\<open>0x\<close> selects radix 16, and the longest run of digits is the value, rounded to a
  number; with no digit the result is \<^verbatim>\<open>NaN\<close>, here \<open>None\<close>. The result is an integer
  (a double from 2^53 on is one).
\<close>

definition digit_value :: "char \<Rightarrow> nat option" where
  "digit_value c =
     map_of (zip ''0123456789abcdefABCDEF''
       [0, 1, 2, 3, 4, 5, 6, 7, 8, 9, 10, 11, 12, 13, 14, 15, 10, 11, 12, 13, 14, 15]) c"

definition is_digit :: "nat \<Rightarrow> char \<Rightarrow> bool" where
  "is_digit radix c = (case digit_value c of None \<Rightarrow> False | Some v \<Rightarrow> v < radix)"

definition digits_value :: "nat \<Rightarrow> string \<Rightarrow> nat" where
  "digits_value radix ds = foldl (\<lambda>acc c. acc * radix + (case digit_value c of None \<Rightarrow> 0 | Some v \<Rightarrow> v)) 0 ds"

definition parseInt :: "string \<Rightarrow> int option" where
  "parseInt s =
     (let s1 = dropWhile is_white_space s;
          negative = (s1 \<noteq> [] \<and> hd s1 = CHR ''-'');
          s2 = (if s1 \<noteq> [] \<and> (hd s1 = CHR ''-'' \<or> hd s1 = CHR ''+'') then tl s1 else s1);
          hex = (take 2 s2 = ''0x'' \<or> take 2 s2 = ''0X'');
          radix = (if hex then 16 else 10);
          s3 = (if hex then drop 2 s2 else s2);
          ds = takeWhile (is_digit radix) s3
      in if ds = [] then None
         else Some ((if negative then - 1 else 1)
                      * \<lfloor>value_of (number (of_nat (digits_value radix ds)))\<rfloor>))"

section \<open>The document store\<close>

text \<open>
  \<^verbatim>\<open>findById\<close> answers the first document with the id. \<^verbatim>\<open>save\<close> of a loaded
  document writes it over the stored document with its id. \<^verbatim>\<open>deleteOne\<close> removes the
  first document that matches, \<^verbatim>\<open>deleteMany\<close> every document that matches.
\<close>

definition findById :: "('d \<Rightarrow> oid) \<Rightarrow> 'd list \<Rightarrow> oid \<Rightarrow> 'd option" where
  "findById key ds i = find (\<lambda>d. key d = i) ds"

fun save :: "('d \<Rightarrow> oid) \<Rightarrow> 'd \<Rightarrow> 'd list \<Rightarrow> 'd list" where
  "save key d [] = []"
| "save key d (e # es) = (if key e = key d then d # es else e # save key d es)"

fun deleteOne :: "('d \<Rightarrow> bool) \<Rightarrow> 'd list \<Rightarrow> 'd list" where
  "deleteOne P [] = []"
| "deleteOne P (d # ds) = (if P d then ds else d # deleteOne P ds)"

definition deleteMany :: "('d \<Rightarrow> bool) \<Rightarrow> 'd list \<Rightarrow> 'd list" where
  "deleteMany P ds = filter (\<lambda>d. \<not> P d) ds"

text \<open>
  \<^verbatim>\<open>populate\<close> replaces a user reference by the selected fields of the user, or by
  \<^verbatim>\<open>null\<close> when no such user is stored.
\<close>

record author_info =
  ai_id :: oid
  ai_name :: "string option"
  ai_avatar_url :: "string option"
  ai_bio :: "string option"

definition populate :: "user list \<Rightarrow> bool \<Rightarrow> oid \<Rightarrow> author_info option" where
  "populate us with_bio i =
     (case findById u_id us i of
        None \<Rightarrow> None
      | Some u \<Rightarrow>
          Some \<lparr>ai_id = u_id u, ai_name = name u, ai_avatar_url = avatar_url u,
                ai_bio = (if with_bio then bio u else None)\<rparr>)"

section \<open>Post handlers\<close>

subsection \<open>getPostById\<close>

record post_view =
  pv_id :: oid
  pv_title :: string
  pv_content :: string
  pv_excerpt :: "string option"
  pv_coverImage :: "string option"
  pv_author :: "author_info option"
  pv_tags :: "string list"
  pv_category :: "string option"
  pv_views :: double
  pv_likes :: nat
  pv_userHasLiked :: bool
  pv_createdAt :: date
  pv_updatedAt :: date

text \<open>
  The route is public: \<open>req_user\<close> is the requester when one is known. \<open>now\<close> is the
  clock read by the schema's pre-save hook.
\<close>

definition getPostById ::
  "store \<Rightarrow> date \<Rightarrow> oid \<Rightarrow> oid option \<Rightarrow> (failure + post_view) \<times> store" where
  "getPostById st now i req_user =
     (case findById p_id (posts st) i of
        None \<Rightarrow> (Inl (Status404 ''Post not found''), st)
      | Some found \<Rightarrow>
          (let post = found\<lparr>views := num_add (views found) (number 1), updated_at := now\<rparr>;
               st' = st\<lparr>posts := save p_id post (posts st)\<rparr>;
               userHasLiked = (case req_user of None \<Rightarrow> False | Some u \<Rightarrow> u \<in> set (likes post))
           in (Inr \<lparr>pv_id = p_id post, pv_title = title post, pv_content = content_html post,
                    pv_excerpt = excerpt post, pv_coverImage = cover_image post,
                    pv_author = populate (users st) True (author post),
                    pv_tags = tags post, pv_category = category post, pv_views = views post,
                    pv_likes = length (likes post), pv_userHasLiked = userHasLiked,
                    pv_createdAt = created_at post, pv_updatedAt = updated_at post\<rparr>, st')))"

subsection \<open>createPost\<close>

record create_body =
  cb_title :: "string option"
  cb_content :: "string option"
  cb_tags :: "string list option"
  cb_excerpt :: "string option"
  cb_coverImage :: "string option"

text \<open>
  \<^verbatim>\<open>Post.create\<close>: the document is built (the title trimmed, the defaults of the schema
  filled in), validated against the schema (title, slug, content_html and author are
  required, and a required string must not be empty), and then inserted, which the unique
  indexes on \<^verbatim>\<open>_id\<close> and \<^verbatim>\<open>slug\<close> refuse with a duplicate-key error (code 11000).
  \<open>new_id\<close> is the ObjectId generated for the document.
\<close>

definition Post_create ::
  "post list \<Rightarrow> date \<Rightarrow> oid \<Rightarrow> string \<Rightarrow> string \<Rightarrow> string option \<Rightarrow> string option \<Rightarrow>
     string option \<Rightarrow> oid \<Rightarrow> string list \<Rightarrow> exn + post" where
  "Post_create ps now new_id title' slug' content excerpt' cover author' tags' =
     (case content of
        None \<Rightarrow> Inl ValidationError
      | Some content' \<Rightarrow>
          if trim title' = [] \<or> slug' = [] \<or> content' = [] then Inl ValidationError
          else if new_id \<in> set (map p_id ps) \<or> slug' \<in> set (map slug ps) then Inl DuplicateKey
          else Inr \<lparr>p_id = new_id, title = trim title', slug = slug', content_html = content',
                    excerpt = excerpt', cover_image = cover, author = author', tags = tags',
                    category = None, status = Published, views = number 0, likes = [],
                    created_at = now, updated_at = now\<rparr>)"

record created_view =
  cv_id :: oid
  cv_title :: string
  cv_slug :: string
  cv_createdAt :: date

text \<open>
  The route is protected: \<open>user_id\<close> is the requester. A body without a title makes
  \<^verbatim>\<open>title.toLowerCase()\<close> throw. The \<^verbatim>\<open>catch\<close> answers 400 for code 11000 and 500 for
  every other exception.
\<close>

definition createPost ::
  "store \<Rightarrow> date \<Rightarrow> oid \<Rightarrow> oid \<Rightarrow> create_body \<Rightarrow> (failure + created_view) \<times> store" where
  "createPost st now new_id user_id body =
     (case cb_title body of
        None \<Rightarrow> (Inl (Status500 TypeError), st)
      | Some title' \<Rightarrow>
          (case Post_create (posts st) now new_id title' (slug_of_title title') (cb_content body)
                  (cb_excerpt body) (cb_coverImage body) user_id
                  (case cb_tags body of None \<Rightarrow> [] | Some ts \<Rightarrow> ts) of
             Inl DuplicateKey \<Rightarrow> (Inl (Status400 ''A post with this title already exists''), st)
           | Inl e \<Rightarrow> (Inl (Status500 e), st)
           | Inr post \<Rightarrow>
               (Inr \<lparr>cv_id = p_id post, cv_title = title post, cv_slug = slug post,
                     cv_createdAt = created_at post\<rparr>,
                st\<lparr>posts := posts st @ [post]\<rparr>)))"

subsection \<open>updateUserProfile\<close>

record profile_body =
  pb_name :: "string option"
  pb_bio :: "string option"
  pb_avatar :: "string option"

definition updateUserProfile ::
  "store \<Rightarrow> oid \<Rightarrow> profile_body \<Rightarrow> (failure + user) \<times> store" where
  "updateUserProfile st user_id body =
     (case findById u_id (users st) user_id of
        None \<Rightarrow> (Inl (Status404 ''User not found''), st)
      | Some found \<Rightarrow>
          (let user1 = found\<lparr>name := or_else (pb_name body) (name found),
                             bio := or_else (pb_bio body) (bio found)\<rparr>;
               user2 = (if truthy (pb_avatar body) then user1\<lparr>avatar_url := pb_avatar body\<rparr>
                        else user1)
           in (Inr user2, st\<lparr>users := save u_id user2 (users st)\<rparr>)))"

subsection \<open>getTrendingPosts\<close>

text \<open>
  Each post is scored with the clock read for it: \<open>clock k\<close> is \<^verbatim>\<open>new Date()\<close> in the
  k-th call of the \<^verbatim>\<open>map\<close> callback. The scored object is the post's fields with the
  score and the age added. All arithmetic is that of JavaScript numbers.
\<close>

record scored_post = post +
  trendingScore :: double
  hoursSincePosted :: double

text \<open>\<^verbatim>\<open>(now - postDate) / (1000 * 60 * 60)\<close>.\<close>

definition hours_since :: "date \<Rightarrow> date \<Rightarrow> double" where
  "hours_since now postDate =
     num_div (num_sub (time_value now) (time_value postDate))
       (num_mul (num_mul (number 1000) (number 60)) (number 60))"

definition score_post :: "date \<Rightarrow> post \<Rightarrow> scored_post" where
  "score_post now p =
     (let hours = hours_since now (created_at p);
          agePenalty = (if value_of (number 24) < value_of hours
                        then num_mul (num_sub hours (number 24)) (number (1 / 10))
                        else number 0);
          score = num_sub (num_add (num_mul (views p) (number 1))
                             (num_mul (number (of_nat (length (likes p)))) (number 3)))
                    agePenalty
      in post.extend p (scored_post.fields score hours))"

definition find_published :: "post list \<Rightarrow> post list" where
  "find_published ps = filter (\<lambda>p. status p = Published) ps"

definition postsWithScores :: "(nat \<Rightarrow> date) \<Rightarrow> post list \<Rightarrow> scored_post list" where
  "postsWithScores clock allPosts =
     map (\<lambda>(k, p). score_post (clock k) p) (enumerate 0 allPosts)"

text \<open>The comparator handed to \<^verbatim>\<open>sort\<close>: negative when \<open>a\<close> goes before \<open>b\<close>.\<close>

definition compare_trending :: "scored_post \<Rightarrow> scored_post \<Rightarrow> double" where
  "compare_trending a b =
     (if value_of (trendingScore b) \<noteq> value_of (trendingScore a)
      then num_sub (trendingScore b) (trendingScore a)
      else num_sub (time_value (created_at b)) (time_value (created_at a)))"

text \<open>
  \<^verbatim>\<open>Array.prototype.sort\<close> is stable; it is modelled by the stable insertion sort under
  the comparator.
\<close>

fun insert_by :: "('a \<Rightarrow> 'a \<Rightarrow> double) \<Rightarrow> 'a \<Rightarrow> 'a list \<Rightarrow> 'a list" where
  "insert_by cmp x [] = [x]"
| "insert_by cmp x (y # ys) =
     (if value_of (cmp x y) \<le> 0 then x # y # ys else y # insert_by cmp x ys)"

definition array_sort :: "('a \<Rightarrow> 'a \<Rightarrow> double) \<Rightarrow> 'a list \<Rightarrow> 'a list" where
  "array_sort cmp xs = foldr (insert_by cmp) xs []"

text \<open>
  \<^verbatim>\<open>slice(0, n)\<close>: the first \<open>n\<close> elements, and for a negative \<open>n\<close> all but the last
  \<open>- n\<close>.
\<close>

definition slice0 :: "'a list \<Rightarrow> int \<Rightarrow> 'a list" where
  "slice0 xs n = (if n < 0 then take (nat (int (length xs) + n)) xs else take (nat n) xs)"

text \<open>\<^verbatim>\<open>parseInt(req.query.limit) || fallback\<close>: \<^verbatim>\<open>NaN\<close> and 0 are falsy.\<close>

definition limit_or :: "string option \<Rightarrow> int \<Rightarrow> int" where
  "limit_or q fallback =
     (case (case q of None \<Rightarrow> None | Some s \<Rightarrow> parseInt s) of
        None \<Rightarrow> fallback
      | Some n \<Rightarrow> if n = 0 then fallback else n)"

text \<open>The posts in the order of the sort, before the slice.\<close>

definition sortedByTrend :: "store \<Rightarrow> (nat \<Rightarrow> date) \<Rightarrow> scored_post list" where
  "sortedByTrend st clock =
     array_sort compare_trending (postsWithScores clock (find_published (posts st)))"

definition sortedPosts :: "store \<Rightarrow> (nat \<Rightarrow> date) \<Rightarrow> string option \<Rightarrow> scored_post list" where
  "sortedPosts st clock q = slice0 (sortedByTrend st clock) (limit_or q 4)"

record trending_view =
  tv_id :: oid
  tv_rank :: nat
  tv_title :: string
  tv_excerpt :: string
  tv_coverImage :: string
  tv_author :: "string option"
  tv_createdAt :: date
  tv_readTime :: nat
  tv_likes :: nat
  tv_views :: double
  tv_trendingScore :: double

definition placeholder_cover :: "oid \<Rightarrow> string" where
  "placeholder_cover i = ''https://picsum.photos/400/250?random='' @ drop (length i - 6) i"

text \<open>
  \<^verbatim>\<open>Math.ceil(content.split(' ').length / 200)\<close>: the number of pieces is one more than
  the number of spaces, and the rounded quotient has the ceiling of the exact one.
\<close>

definition readTime :: "string \<Rightarrow> nat" where
  "readTime content = (length (filter (\<lambda>c. c = CHR '' '') content) + 1 + 199) div 200"

text \<open>
  \<^verbatim>\<open>Math.round(x * 100) / 100\<close>; \<^verbatim>\<open>Math.round\<close> answers the nearest integer, a half
  going up.
\<close>

definition Math_round :: "double \<Rightarrow> double" where
  "Math_round x = number (of_int \<lfloor>value_of x + 1 / 2\<rfloor>)"

definition round2 :: "double \<Rightarrow> double" where
  "round2 x = num_div (Math_round (num_mul x (number 100))) (number 100)"

text \<open>
  One entry of the answer. Reading \<^verbatim>\<open>post.author.name\<close> throws when the author was
  populated to \<^verbatim>\<open>null\<close>.
\<close>

definition trending_view_of :: "user list \<Rightarrow> nat \<times> scored_post \<Rightarrow> exn + trending_view" where
  "trending_view_of us ip =
     (case ip of (index, p) \<Rightarrow>
        (case populate us False (author p) of
           None \<Rightarrow> Inl TypeError
         | Some a \<Rightarrow>
             Inr \<lparr>tv_id = p_id p, tv_rank = index + 1, tv_title = title p,
                  tv_excerpt = or_string (excerpt p) (take 100 (content_html p) @ ''...''),
                  tv_coverImage = or_string (cover_image p) (placeholder_cover (p_id p)),
                  tv_author = ai_name a, tv_createdAt = created_at p,
                  tv_readTime = readTime (content_html p), tv_likes = length (likes p),
                  tv_views = views p, tv_trendingScore = round2 (trendingScore p)\<rparr>))"

text \<open>A \<^verbatim>\<open>map\<close> whose callback may throw: the first exception ends it.\<close>

fun map_throwing :: "('a \<Rightarrow> exn + 'b) \<Rightarrow> 'a list \<Rightarrow> exn + 'b list" where
  "map_throwing f [] = Inr []"
| "map_throwing f (x # xs) =
     (case f x of
        Inl e \<Rightarrow> Inl e
      | Inr y \<Rightarrow> (case map_throwing f xs of Inl e \<Rightarrow> Inl e | Inr ys \<Rightarrow> Inr (y # ys)))"

definition getTrendingPosts ::
  "store \<Rightarrow> (nat \<Rightarrow> date) \<Rightarrow> string option \<Rightarrow> failure + trending_view list" where
  "getTrendingPosts st clock q =
     (case map_throwing (trending_view_of (users st)) (enumerate 0 (sortedPosts st clock q)) of
        Inl e \<Rightarrow> Inl (Status500 e)
      | Inr trendingPosts \<Rightarrow> Inr trendingPosts)"

subsection \<open>likePost\<close>

record like_view =
  lv_liked :: bool
  lv_likesCount :: nat
  lv_message :: string

text \<open>
  The likes of a loaded post are a Mongoose array, whose \<^verbatim>\<open>includes\<close> compares
  ObjectIds by value.
\<close>

definition likePost ::
  "store \<Rightarrow> date \<Rightarrow> oid \<Rightarrow> oid \<Rightarrow> (failure + like_view) \<times> store" where
  "likePost st now i userId =
     (case findById p_id (posts st) i of
        None \<Rightarrow> (Inl (Status404 ''Post not found''), st)
      | Some found \<Rightarrow>
          (let isLiked = (userId \<in> set (likes found));
               likes' = (if isLiked then filter (\<lambda>l. l \<noteq> userId) (likes found)
                         else likes found @ [userId]);
               post = found\<lparr>likes := likes', updated_at := now\<rparr>
           in (Inr \<lparr>lv_liked = \<not> isLiked, lv_likesCount = length (likes post),
                    lv_message = (if isLiked then ''Post unliked'' else ''Post liked'')\<rparr>,
               st\<lparr>posts := save p_id post (posts st)\<rparr>)))"

subsection \<open>deletePost\<close>

definition deletePost :: "store \<Rightarrow> oid \<Rightarrow> oid \<Rightarrow> (failure + string) \<times> store" where
  "deletePost st i user_id =
     (case findById p_id (posts st) i of
        None \<Rightarrow> (Inl (Status404 ''Post not found''), st)
      | Some post \<Rightarrow>
          if author post \<noteq> user_id
          then (Inl (Status401 ''Not authorized to delete this post''), st)
          else (Inr ''Post removed'', st\<lparr>posts := deleteOne (\<lambda>p. p_id p = i) (posts st)\<rparr>))"

section \<open>Comment handlers\<close>

subsection \<open>createComment\<close>

record comment_body =
  mb_content :: "string option"
  mb_parentId :: "oid option"

text \<open>
  \<^verbatim>\<open>Comment.create\<close>: post, user and content are required by the schema and present
  here; the insert is refused when the generated \<^verbatim>\<open>_id\<close> is already stored.
\<close>

definition createComment ::
  "store \<Rightarrow> date \<Rightarrow> oid \<Rightarrow> oid \<Rightarrow> oid \<Rightarrow> comment_body \<Rightarrow>
     (failure + comment \<times> author_info option) \<times> store" where
  "createComment st now new_id postId user_id body =
     (case mb_content body of
        None \<Rightarrow> (Inl (Status400 ''Comment content is required''), st)
      | Some content \<Rightarrow>
          if content = [] \<or> trim content = []
          then (Inl (Status400 ''Comment content is required''), st)
          else
            (case findById p_id (posts st) postId of
               None \<Rightarrow> (Inl (Status404 ''Post not found''), st)
             | Some post \<Rightarrow>
                 if new_id \<in> set (map c_id (comments st))
                 then (Inl (Status500 DuplicateKey), st)
                 else
                   (let comment = \<lparr>c_id = new_id, c_post = postId, c_user = user_id,
                                    c_content = trim content,
                                    c_parent = or_else (mb_parentId body) None,
                                    c_replies = [], c_created_at = now, c_updated_at = now\<rparr>
                    in (Inr (comment, populate (users st) False user_id),
                        st\<lparr>comments := comments st @ [comment]\<rparr>))))"

subsection \<open>deleteComment\<close>

definition deleteComment :: "store \<Rightarrow> oid \<Rightarrow> oid \<Rightarrow> (failure + string) \<times> store" where
  "deleteComment st i user_id =
     (case findById c_id (comments st) i of
        None \<Rightarrow> (Inl (Status404 ''Comment not found''), st)
      | Some comment \<Rightarrow>
          if c_user comment \<noteq> user_id
          then (Inl (Status401 ''Not authorized to delete this comment''), st)
          else (Inr ''Comment removed'',
                st\<lparr>comments := deleteMany (\<lambda>c. c_id c = i \<or> c_parent c = Some i) (comments st)\<rparr>))"

section \<open>Sequences of requests\<close>

text \<open>
  The requests that write to the store, each with the values its handler reads from the
  environment (the clock, the generated id, the requester set by the \<^verbatim>\<open>protect\<close>
  middleware). The remaining handlers only read.
\<close>

datatype request =
    GetPostById date oid "oid option"
  | CreatePost date oid oid create_body
  | UpdateUserProfile oid profile_body
  | LikePost date oid oid
  | DeletePost oid oid
  | CreateComment date oid oid oid comment_body
  | DeleteComment oid oid

fun handle :: "store \<Rightarrow> request \<Rightarrow> store" where
  "handle st (GetPostById now i req_user) = snd (getPostById st now i req_user)"
| "handle st (CreatePost now new_id user_id body) = snd (createPost st now new_id user_id body)"
| "handle st (UpdateUserProfile user_id body) = snd (updateUserProfile st user_id body)"
| "handle st (LikePost now i user_id) = snd (likePost st now i user_id)"
| "handle st (DeletePost i user_id) = snd (deletePost st i user_id)"
| "handle st (CreateComment now new_id postId user_id body) =
     snd (createComment st now new_id postId user_id body)"
| "handle st (DeleteComment i user_id) = snd (deleteComment st i user_id)"

definition run :: "store \<Rightarrow> request list \<Rightarrow> store" where
  "run st rs = foldl handle st rs"

section \<open>The properties\<close>

text \<open>
  The trending score as the specification words it: views + 3 * likes - agePenalty, where
  agePenalty is max(0, hoursSincePosted - 24) * 0.1, in the arithmetic of JavaScript
  numbers.
\<close>

definition spec_score :: "date \<Rightarrow> post \<Rightarrow> double" where
  "spec_score now p =
     (let hoursSincePosted = hours_since now (created_at p);
          agePenalty = num_mul (num_max (number 0) (num_sub hoursSincePosted (number 24)))
                         (number (1 / 10))
      in num_sub (num_add (views p) (num_mul (number 3) (number (of_nat (length (likes p))))))
           agePenalty)"

text \<open>
  The order the trending list is to have: a higher score comes first, and of two posts
  with the same score the one created later comes first.
\<close>

definition trend_before :: "scored_post \<Rightarrow> scored_post \<Rightarrow> bool" where
  "trend_before a b =
     (value_of (trendingScore b) < value_of (trendingScore a)
      \<or> (value_of (trendingScore a) = value_of (trendingScore b)
          \<and> value_of (time_value (created_at b)) \<le> value_of (time_value (created_at a))))"

text \<open>No post of the store lists a user twice among its likes.\<close>

definition likes_distinct :: "store \<Rightarrow> bool" where
  "likes_distinct st = (\<forall>p \<in> set (posts st). distinct (likes p))"


section \<open>A small blog\<close>

text \<open>
  Two users, five published posts and a draft, and one comment thread: a comment by
  Alice with two direct replies, one of which has a reply of its own.
\<close>

definition alice :: user where
  "alice = \<lparr>u_id = ''0000000000000000000000a1'', name = Some ''Alice'',
            email = ''alice@example.org'', bio = Some ''Writes'', avatar_url = None,
            role = ''user''\<rparr>"

definition bob :: user where
  "bob = \<lparr>u_id = ''0000000000000000000000a2'', name = Some ''Bob'',
          email = ''bob@example.org'', bio = None, avatar_url = Some ''bob.png'',
          role = ''admin''\<rparr>"

definition hello_post :: post where
  "hello_post = \<lparr>p_id = ''0000000000000000000000b1'', title = ''Hello, World!'',
     slug = ''hello-world'', content_html = ''one two three'', excerpt = None,
     cover_image = None, author = ''0000000000000000000000a1'', tags = [], category = None,
     status = Published, views = number 10,
     likes = [''0000000000000000000000a1'', ''0000000000000000000000a2''],
     created_at = 0, updated_at = 0\<rparr>"

definition second_post :: post where
  "second_post = hello_post\<lparr>p_id := ''0000000000000000000000b2'', title := ''Second'',
     slug := ''second'', author := ''0000000000000000000000a2'', views := number 16, likes := [],
     created_at := 3600000, updated_at := 3600000\<rparr>"

definition draft_post :: post where
  "draft_post = hello_post\<lparr>p_id := ''0000000000000000000000b3'', title := ''Draft'',
     slug := ''draft'', status := Draft, views := number 100, likes := []\<rparr>"

definition third_post :: post where
  "third_post = hello_post\<lparr>p_id := ''0000000000000000000000b4'', title := ''Third'',
     slug := ''third'', views := number 1, likes := []\<rparr>"

definition fourth_post :: post where
  "fourth_post = hello_post\<lparr>p_id := ''0000000000000000000000b5'', title := ''Fourth'',
     slug := ''fourth'', views := number 3, likes := []\<rparr>"

definition fifth_post :: post where
  "fifth_post = hello_post\<lparr>p_id := ''0000000000000000000000b6'', title := ''Fifth'',
     slug := ''fifth'', views := number 2, likes := []\<rparr>"

definition root_comment :: comment where
  "root_comment = \<lparr>c_id = ''0000000000000000000000c0'', c_post = ''0000000000000000000000b1'',
     c_user = ''0000000000000000000000a1'', c_content = ''First'', c_parent = None,
     c_replies = [], c_created_at = 10, c_updated_at = 10\<rparr>"

definition reply_one :: comment where
  "reply_one = root_comment\<lparr>c_id := ''0000000000000000000000c1'',
     c_user := ''0000000000000000000000a2'', c_content := ''Reply one'',
     c_parent := Some ''0000000000000000000000c0''\<rparr>"

definition reply_two :: comment where
  "reply_two = root_comment\<lparr>c_id := ''0000000000000000000000c2'', c_content := ''Reply two'',
     c_parent := Some ''0000000000000000000000c0''\<rparr>"

definition reply_to_reply :: comment where
  "reply_to_reply = root_comment\<lparr>c_id := ''0000000000000000000000c3'',
     c_user := ''0000000000000000000000a2'', c_content := ''Reply to reply one'',
     c_parent := Some ''0000000000000000000000c1''\<rparr>"

definition blog :: store where
  "blog = \<lparr>posts = [hello_post, second_post, draft_post, third_post, fourth_post, fifth_post],
           comments = [root_comment, reply_one, reply_two, reply_to_reply],
           users = [alice, bob]\<rparr>"


definition busy_blog :: store where
  "busy_blog = blog\<lparr>posts := [hello_post\<lparr>views := number 9007199254740992\<rparr>]\<rparr>"

definition blog_without_bob :: store where
  "blog_without_bob = blog\<lparr>users := [alice]\<rparr>"

text \<open>A request body with a fresh title.\<close>

definition hello_body :: create_body where
  "hello_body = \<lparr>cb_title = Some ''Hello, World!'', cb_content = Some ''text'',
     cb_tags = None, cb_excerpt = None, cb_coverImage = None\<rparr>"

text \<open>A clock that reads the same time at every call.\<close>

definition steady_clock :: "date \<Rightarrow> nat \<Rightarrow> date" where
  "steady_clock t k = t"

text \<open>Two request bodies with a title whose slug is taken, without and with a content.\<close>

definition hello_again_empty :: create_body where
  "hello_again_empty = \<lparr>cb_title = Some ''Hello World'', cb_content = None, cb_tags = None,
     cb_excerpt = None, cb_coverImage = None\<rparr>"

definition hello_again :: create_body where
  "hello_again = hello_again_empty\<lparr>cb_content := Some ''text''\<rparr>"

section \<open>Facts about the store\<close>

lemma findById_save:
  "findById key (save key d ds) i =
     (if i = key d then map_option (\<lambda>_. d) (findById key ds i) else findById key ds i)"
  by (induction ds) (auto simp: findById_def)

lemma findById_Some_key: "findById key ds i = Some d \<Longrightarrow> key d = i"
  unfolding findById_def by (auto simp: find_Some_iff)

lemma findById_Some_set: "findById key ds i = Some d \<Longrightarrow> d \<in> set ds"
  unfolding findById_def by (auto simp: find_Some_iff)

lemma run_Nil: "run st [] = st"
  by (simp add: run_def)

lemma run_Cons: "run st (r # rs) = run (handle st r) rs"
  by (simp add: run_def)

lemma findById_save_other:
  "i \<noteq> key d \<Longrightarrow> findById key (save key d ds) i = findById key ds i"
  by (simp add: findById_save)

lemma length_filter_split:
  "length (filter P xs) + length (filter (\<lambda>x. \<not> P x) xs) = length xs"
  by (induction xs) auto

lemma findById_distinct_unique:
  "distinct (map key ds) \<Longrightarrow> findById key ds i = Some d \<Longrightarrow> filter (\<lambda>e. key e = i) ds = [d]"
  by (induction ds) (auto simp: findById_def filter_empty_conv image_iff split: if_splits)

lemma set_save: "set (save key d ds) \<subseteq> insert d (set ds)"
  by (induction ds) auto

lemma set_deleteOne: "set (deleteOne P ds) \<subseteq> set ds"
  by (induction ds) auto

lemma posts_updateUserProfile: "posts (snd (updateUserProfile st u body)) = posts st"
  by (simp add: updateUserProfile_def Let_def split: option.splits)

lemma posts_createComment: "posts (snd (createComment st now new_id i u body)) = posts st"
  by (simp add: createComment_def Let_def split: option.splits)

lemma posts_deleteComment: "posts (snd (deleteComment st i u)) = posts st"
  by (simp add: deleteComment_def split: option.splits)


section \<open>Facts about numbers\<close>

lemma round_half_even_of_int: "round_half_even (of_int k) = k"
  by (simp add: round_half_even_def)

lemma round_half_even_ge_floor: "\<lfloor>r\<rfloor> \<le> round_half_even r"
  by (simp add: round_half_even_def Let_def)

lemma round_half_even_le_ceiling: "round_half_even r \<le> \<lceil>r\<rceil>"
proof (cases "r = of_int \<lfloor>r\<rfloor>")
  case True
  then have "round_half_even r = \<lfloor>r\<rfloor>" by (metis round_half_even_of_int)
  then show ?thesis by (simp add: floor_le_ceiling)
next
  case False
  then have "\<lceil>r\<rceil> = \<lfloor>r\<rfloor> + 1" by (simp add: ceiling_altdef)
  then show ?thesis by (simp add: round_half_even_def Let_def)
qed

lemma two_powi_pos: "0 < (2::rat) powi e"
  by simp

lemma two_powi_nat: "0 \<le> e \<Longrightarrow> (2::rat) powi e = of_int (2 ^ nat e)"
  by (simp add: power_int_nonneg_exp)

lemma two_powi_neg: "(2::rat) powi (- e) = 1 / 2 powi e"
  by (rule power_int_minus_divide)

lemma two_powi_Suc: "(2::rat) powi (e + 1) = 2 * 2 powi e"
  by (simp add: power_int_add)

lemma bitlen_pos: "0 < n \<Longrightarrow> 1 \<le> bitlen n"
  by (auto simp: bitlen_alt_def)

lemma exponent_bounds:
  assumes "0 < x"
  shows "2 powi exponent x \<le> x \<and> x < 2 powi (exponent x + 1)"
proof (cases "1 \<le> x")
  case True
  define n where "n = \<lfloor>x\<rfloor>"
  have n: "1 \<le> n" using True by (simp add: n_def)
  then have b: "1 \<le> bitlen n" by (simp add: bitlen_pos)
  have e: "exponent x = bitlen n - 1" using True by (simp add: exponent_def n_def)
  from bitlen_bounds[of n] n have lo: "2 ^ nat (bitlen n - 1) \<le> n" and hi: "n < 2 ^ nat (bitlen n)"
    by simp_all
  have "(2::rat) powi (bitlen n - 1) = of_int (2 ^ nat (bitlen n - 1))"
    using b by (simp add: two_powi_nat)
  also have "\<dots> \<le> of_int n" using lo by (simp only: of_int_le_iff)
  also have "\<dots> \<le> x" by (simp add: n_def)
  finally have A: "2 powi exponent x \<le> x" by (simp add: e)
  have "x < of_int (n + 1)" using floor_correct[of x] by (simp add: n_def)
  also have "\<dots> \<le> of_int (2 ^ nat (bitlen n))" using hi by (simp only: of_int_le_iff)
  also have "\<dots> = (2::rat) powi (bitlen n)" using b by (simp add: two_powi_nat)
  finally have B: "x < 2 powi (exponent x + 1)" by (simp add: e)
  from A B show ?thesis ..
next
  case False
  define y where "y = 1 / x"
  define j where "j = \<lceil>y\<rceil> - 1"
  have y: "1 < y" using False assms by (simp add: y_def)
  then have "2 \<le> \<lceil>y\<rceil>" by (simp add: less_ceiling_iff flip: add1_zle_eq)
  then have j: "1 \<le> j" by (simp add: j_def)
  then have b: "1 \<le> bitlen j" by (simp add: bitlen_pos)
  have e: "exponent x = - bitlen j" using False by (simp add: exponent_def j_def y_def)
  from bitlen_bounds[of j] j have lo: "2 ^ nat (bitlen j - 1) \<le> j" and hi: "j < 2 ^ nat (bitlen j)"
    by simp_all
  have x: "x = 1 / y" by (simp add: y_def)
  have "y \<le> of_int (j + 1)" by (simp add: j_def)
  also have "\<dots> \<le> of_int (2 ^ nat (bitlen j))" using hi by (simp only: of_int_le_iff)
  also have "\<dots> = (2::rat) powi (bitlen j)" using b by (simp add: two_powi_nat)
  finally have "y \<le> 2 powi (bitlen j)" .
  then have "1 / 2 powi (bitlen j) \<le> 1 / y"
    using y by (intro divide_left_mono) simp_all
  then have "2 powi (- bitlen j) \<le> 1 / y" by (simp only: two_powi_neg)
  then have A: "2 powi exponent x \<le> x" by (simp only: e flip: x)
  have "(2::rat) powi (bitlen j - 1) = of_int (2 ^ nat (bitlen j - 1))"
    using b by (simp add: two_powi_nat)
  also have "\<dots> \<le> of_int j" using lo by (simp only: of_int_le_iff)
  also have "\<dots> < y" by (simp add: j_def) linarith
  finally have "2 powi (bitlen j - 1) < y" .
  moreover have "0 < y * 2 powi (bitlen j - 1)" using y by simp
  ultimately have "1 / y < 1 / 2 powi (bitlen j - 1)"
    by (intro divide_strict_left_mono) simp_all
  moreover have "(2::rat) powi (exponent x + 1) = 1 / 2 powi (bitlen j - 1)"
    using two_powi_neg[of "bitlen j - 1"] by (simp add: e)
  ultimately have "1 / y < 2 powi (exponent x + 1)" by simp
  then have B: "x < 2 powi (exponent x + 1)" by (simp only: flip: x)
  from A B show ?thesis ..
qed

lemma two_powi_mono: "a \<le> b \<Longrightarrow> (2::rat) powi a \<le> 2 powi b"
  by (rule power_int_increasing) simp_all

lemma two_powi_less_imp: "(2::rat) powi a < 2 powi b \<Longrightarrow> a < b"
proof (rule ccontr)
  assume l: "(2::rat) powi a < 2 powi b" and "\<not> a < b"
  then have "b \<le> a" by simp
  then have "(2::rat) powi b \<le> 2 powi a" by (rule two_powi_mono)
  with l show False by simp
qed

lemma exponent_unique:
  assumes "0 < x" and "2 powi e \<le> x" and "x < 2 powi (e + 1)"
  shows "exponent x = e"
proof -
  from exponent_bounds[OF assms(1)] have lo: "2 powi exponent x \<le> x"
    and hi: "x < 2 powi (exponent x + 1)" by simp_all
  from assms(2) hi have "(2::rat) powi e < 2 powi (exponent x + 1)" by (rule le_less_trans)
  then have a: "e < exponent x + 1" by (rule two_powi_less_imp)
  from lo assms(3) have "(2::rat) powi exponent x < 2 powi (e + 1)" by (rule le_less_trans)
  then have "exponent x < e + 1" by (rule two_powi_less_imp)
  with a show ?thesis by simp
qed

lemma quantum_pos: "0 < quantum x"
  by (simp add: quantum_def)

lemma two_powi_diff: "a \<le> b \<Longrightarrow> (2::rat) powi b = of_int (2 ^ nat (b - a)) * 2 powi a"
proof -
  assume "a \<le> b"
  then have "(2::rat) powi (b - a) = of_int (2 ^ nat (b - a))" by (simp add: two_powi_nat)
  moreover have "(2::rat) powi b = 2 powi (b - a) * 2 powi a"
    using power_int_add[of "2::rat" "b - a" a] by simp
  ultimately show ?thesis by simp
qed

lemma nearest_pos_fix:
  assumes "y = of_int k * quantum y"
  shows "nearest_pos y = y"
proof -
  have "y / quantum y = of_int k"
    using assms quantum_pos[of y] by (metis less_irrefl nonzero_mult_div_cancel_right)
  then have "round_half_even (y / quantum y) = k" by (simp only: round_half_even_of_int)
  with assms show ?thesis by (simp add: nearest_pos_def)
qed

lemma round_half_even_nonneg: "0 \<le> r \<Longrightarrow> 0 \<le> round_half_even r"
  using round_half_even_ge_floor[of r] by (simp add: order_trans[of 0 "\<lfloor>r\<rfloor>"])

lemma nearest_pos_nonneg: "0 < x \<Longrightarrow> 0 \<le> nearest_pos x"
  using quantum_pos[of x] by (simp add: nearest_pos_def round_half_even_nonneg)

lemma quantum_le:
  assumes "0 < x" and "2 powi (- 1074) \<le> x"
  shows "quantum x \<le> x"
proof (cases "- 1022 \<le> exponent x")
  case True
  then have "quantum x = 2 powi (exponent x - 52)" by (simp add: quantum_def max_def)
  also have "\<dots> \<le> 2 powi exponent x" by (rule two_powi_mono) simp
  also have "\<dots> \<le> x" using exponent_bounds[OF assms(1)] by simp
  finally show ?thesis .
next
  case False
  then have "quantum x = 2 powi (- 1074)" by (simp add: quantum_def max_def)
  with assms(2) show ?thesis by simp
qed

lemma nearest_pos_pos:
  assumes "0 < x" and "2 powi (- 1074) \<le> x"
  shows "0 < nearest_pos x"
proof -
  have "1 \<le> x / quantum x"
    using quantum_le[OF assms] quantum_pos[of x] by (simp add: pos_le_divide_eq)
  then have "1 \<le> \<lfloor>x / quantum x\<rfloor>" by (simp add: le_floor_iff)
  with round_half_even_ge_floor[of "x / quantum x"] have "0 < round_half_even (x / quantum x)"
    by linarith
  with quantum_pos[of x] show ?thesis by (simp add: nearest_pos_def)
qed

lemma quantum_grid: "\<exists>k. quantum x = of_int k * 2 powi (- 1074)"
proof -
  have "- 1074 \<le> max (exponent x) (- 1022) - 52" by simp
  from two_powi_diff[OF this] show ?thesis unfolding quantum_def by blast
qed

lemma nearest_pos_grid: "\<exists>k. nearest_pos x = of_int k * 2 powi (- 1074)"
proof -
  from quantum_grid[of x] obtain k where "quantum x = of_int k * 2 powi (- 1074)" ..
  then have "nearest_pos x = of_int (round_half_even (x / quantum x) * k) * 2 powi (- 1074)"
    by (simp add: nearest_pos_def)
  then show ?thesis ..
qed

lemma nearest_pos_upper:
  assumes "0 < x"
  shows "nearest_pos x \<le> 2 powi (max (exponent x) (- 1022) + 1)"
proof -
  define E where "E = max (exponent x) (- 1022)"
  have q: "quantum x = 2 powi (E - 52)" by (simp add: quantum_def E_def)
  have top: "(2::rat) powi (E + 1) = of_int (2 ^ 53) * quantum x"
    unfolding q using two_powi_diff[of "E - 52" "E + 1"] by simp
  have "x < 2 powi (exponent x + 1)" using exponent_bounds[OF assms] by simp
  also have "\<dots> \<le> 2 powi (E + 1)" by (rule two_powi_mono) (simp add: E_def)
  finally have "x / quantum x < of_int (2 ^ 53)"
    using quantum_pos[of x] by (simp add: top pos_divide_less_eq)
  then have "\<lceil>x / quantum x\<rceil> \<le> 2 ^ 53" by (simp only: ceiling_le_iff)
  with round_half_even_le_ceiling[of "x / quantum x"]
  have "round_half_even (x / quantum x) \<le> 2 ^ 53" by linarith
  then have "of_int (round_half_even (x / quantum x)) \<le> (of_int (2 ^ 53) :: rat)"
    by (simp only: of_int_le_iff)
  then have "nearest_pos x \<le> of_int (2 ^ 53) * quantum x"
    unfolding nearest_pos_def using quantum_pos[of x] by (intro mult_right_mono) simp_all
  then have "nearest_pos x \<le> 2 powi (E + 1)" by (simp only: top)
  then show ?thesis by (simp only: E_def)
qed

lemma nearest_pos_idem:
  assumes "0 < x" and "0 < nearest_pos x"
  shows "nearest_pos (nearest_pos x) = nearest_pos x"
proof -
  define y where "y = nearest_pos x"
  define E where "E = max (exponent x) (- 1022)"
  define E' where "E' = max (exponent y) (- 1022)"
  have y: "0 < y" using assms(2) by (simp add: y_def)
  have up: "y \<le> 2 powi (E + 1)" using nearest_pos_upper[OF assms(1)] by (simp add: y_def E_def)
  have ym: "y = of_int (round_half_even (x / quantum x)) * 2 powi (E - 52)"
    by (simp add: y_def nearest_pos_def quantum_def E_def)
  have qy: "quantum y = 2 powi (E' - 52)" by (simp add: quantum_def E'_def)
  have "2 powi exponent y \<le> y" using exponent_bounds[OF y] by simp
  also note up
  also have "(2::rat) powi (E + 1) < 2 powi (E + 2)"
    by (rule power_int_strict_increasing) simp_all
  finally have "exponent y < E + 2" by (rule two_powi_less_imp)
  then have le: "E' \<le> E + 1" by (simp add: E'_def E_def)
  have "\<exists>k. y = of_int k * quantum y"
  proof (cases "E' \<le> E")
    case True
    then have "E' - 52 \<le> E - 52" by simp
    from two_powi_diff[OF this]
    have "of_int (round_half_even (x / quantum x)) * (2::rat) powi (E - 52) =
        of_int (round_half_even (x / quantum x) * 2 ^ nat (E - 52 - (E' - 52))) * 2 powi (E' - 52)"
      by simp
    with ym have "y = of_int (round_half_even (x / quantum x) * 2 ^ nat (E - 52 - (E' - 52)))
        * 2 powi (E' - 52)" by (rule trans)
    then show ?thesis unfolding qy ..
  next
    case False
    with le have eq: "E' = E + 1" by simp
    have "- 1022 \<le> E" by (simp add: E_def)
    with eq have "exponent y = E + 1" by (simp add: E'_def max_def split: if_splits)
    then have "2 powi (E + 1) \<le> y" using exponent_bounds[OF y] by simp
    with up have "y = 2 powi (E + 1)" by simp
    also have "\<dots> = of_int (2 ^ 52) * 2 powi (E + 1 - 52)"
      using two_powi_diff[of "E + 1 - 52" "E + 1"] by simp
    finally have "y = of_int (2 ^ 52) * 2 powi (E' - 52)" by (simp only: eq)
    then show ?thesis unfolding qy ..
  qed
  then obtain k where "y = of_int k * quantum y" ..
  then have "nearest_pos y = y" by (rule nearest_pos_fix)
  then show ?thesis by (simp add: y_def)
qed

lemma nearest_double_idem: "nearest_double (nearest_double x) = nearest_double x"
proof -
  have pos: "nearest_double (nearest_pos z) = nearest_pos z" if "0 < z" for z
  proof (cases "nearest_pos z = 0")
    case True
    then show ?thesis by (simp add: nearest_double_def)
  next
    case False
    with nearest_pos_nonneg[OF that] have p: "0 < nearest_pos z" by simp
    with nearest_pos_idem[OF that p] show ?thesis by (simp add: nearest_double_def)
  qed
  have neg: "nearest_double (- nearest_pos z) = - nearest_pos z" if "0 < z" for z
  proof (cases "nearest_pos z = 0")
    case True
    then show ?thesis by (simp add: nearest_double_def)
  next
    case False
    with nearest_pos_nonneg[OF that] have p: "0 < nearest_pos z" by simp
    with nearest_pos_idem[OF that p] show ?thesis by (simp add: nearest_double_def)
  qed
  show ?thesis
  proof (cases "x = 0")
    case True
    then show ?thesis by (simp add: nearest_double_def)
  next
    case False
    show ?thesis
    proof (cases "0 < x")
      case True
      with pos[of x] show ?thesis by (simp add: nearest_double_def)
    next
      case n: False
      with False have "0 < - x" by simp
      from neg[OF this] False n show ?thesis by (simp add: nearest_double_def)
    qed
  qed
qed

lemma nearest_double_nonneg: "0 \<le> x \<Longrightarrow> 0 \<le> nearest_double x"
  using nearest_pos_nonneg[of x] by (simp add: nearest_double_def)

lemma nearest_double_nonpos: "x \<le> 0 \<Longrightarrow> nearest_double x \<le> 0"
  using nearest_pos_nonneg[of "- x"] by (simp add: nearest_double_def)

lemma nearest_double_minus: "nearest_double (- x) = - nearest_double x"
  by (simp add: nearest_double_def)

lemma nearest_double_grid: "\<exists>k. nearest_double x = of_int k * 2 powi (- 1074)"
proof -
  from nearest_pos_grid[of x] obtain a where a: "nearest_pos x = of_int a * 2 powi (- 1074)" ..
  from nearest_pos_grid[of "- x"] obtain b where b: "nearest_pos (- x) = of_int b * 2 powi (- 1074)" ..
  have "nearest_double x = of_int (if x = 0 then 0 else if 0 < x then a else - b) * 2 powi (- 1074)"
    by (simp add: nearest_double_def a b)
  then show ?thesis ..
qed

lemma nearest_double_pos:
  assumes "2 powi (- 1074) \<le> x"
  shows "0 < nearest_double x"
proof -
  have "0 < x" using assms two_powi_pos[of "- 1074"] by (rule less_le_trans[rotated])
  with nearest_pos_pos[OF this assms] show ?thesis by (simp add: nearest_double_def)
qed

lemma nearest_pos_of_int:
  assumes "1 \<le> n" and "n \<le> 2 ^ 53"
  shows "nearest_pos (of_int n) = of_int n"
proof -
  define e where "e = exponent (of_int n)"
  have pos: "0 < (of_int n :: rat)" using assms(1) by simp
  from exponent_bounds[OF pos] have lo: "2 powi e \<le> (of_int n :: rat)"
    and hi: "(of_int n :: rat) < 2 powi (e + 1)" by (simp_all add: e_def)
  have "(2::rat) powi 0 \<le> of_int n" using assms(1) by simp
  from this hi have "(2::rat) powi 0 < 2 powi (e + 1)" by (rule le_less_trans)
  then have e0: "0 \<le> e" using two_powi_less_imp[of 0 "e + 1"] by simp
  have "(of_int n :: rat) \<le> of_int (2 ^ 53)" using assms(2) by (simp only: of_int_le_iff)
  then have n53: "(of_int n :: rat) \<le> 2 powi 53" by simp
  with lo have "(2::rat) powi e \<le> 2 powi 53" by (rule order_trans)
  also have "(2::rat) powi 53 < 2 powi 54" by simp
  finally have e53: "e \<le> 53" using two_powi_less_imp[of e 54] by simp
  have q: "quantum (of_int n) = 2 powi (e - 52)"
    using e0 by (simp add: quantum_def e_def max_def)
  have "\<exists>k. (of_int n :: rat) = of_int k * quantum (of_int n)"
  proof (cases "e \<le> 52")
    case True
    then have "(2::rat) powi 0 = of_int (2 ^ nat (0 - (e - 52))) * 2 powi (e - 52)"
      by (intro two_powi_diff) simp
    then have "(of_int n :: rat) = of_int (n * 2 ^ nat (0 - (e - 52))) * quantum (of_int n)"
      by (simp add: q)
    then show ?thesis ..
  next
    case False
    with e53 have e: "e = 53" by simp
    with lo n53 have "(of_int n :: rat) = 2 powi 53" by simp
    also have "(2::rat) powi 53 = of_int (2 ^ 52) * 2 powi (e - 52)" by (simp add: e)
    finally show ?thesis unfolding q ..
  qed
  then obtain k where "(of_int n :: rat) = of_int k * quantum (of_int n)" ..
  then show ?thesis by (rule nearest_pos_fix)
qed

lemma nearest_double_of_int:
  assumes "\<bar>n\<bar> \<le> 2 ^ 53"
  shows "nearest_double (of_int n) = of_int n"
proof (cases "n = 0")
  case True
  then show ?thesis by (simp add: nearest_double_def)
next
  case False
  show ?thesis
  proof (cases "0 < n")
    case True
    with assms nearest_pos_of_int[of n] show ?thesis by (simp add: nearest_double_def)
  next
    case n: False
    with False assms nearest_pos_of_int[of "- n"] show ?thesis by (simp add: nearest_double_def)
  qed
qed

lemma nearest_double_value_of: "nearest_double (value_of a) = value_of a"
  using value_of[of a] by simp

lemma value_of_number: "value_of (number x) = nearest_double x"
  unfolding number_def by (rule Abs_double_inverse) (simp add: nearest_double_idem)

lemma number_value_of: "number (value_of a) = a"
  by (simp add: number_def nearest_double_value_of value_of_inverse)

lemma double_eq_iff: "(a = b) = (value_of a = value_of b)"
  by (simp add: value_of_inject)

lemma value_of_number_of_int: "\<bar>n\<bar> \<le> 2 ^ 53 \<Longrightarrow> value_of (number (of_int n)) = of_int n"
  by (simp add: value_of_number nearest_double_of_int)

lemma nearest_double_0: "nearest_double 0 = 0"
  by (simp add: nearest_double_def)

lemma nearest_double_1: "nearest_double 1 = 1"
  using nearest_double_of_int[of 1] by simp

lemma nearest_double_numeral:
  "(numeral n :: int) \<le> 2 ^ 53 \<Longrightarrow> nearest_double (numeral n) = numeral n"
  using nearest_double_of_int[of "numeral n"] by simp

lemma nearest_double_neg_numeral:
  "(numeral n :: int) \<le> 2 ^ 53 \<Longrightarrow> nearest_double (- numeral n) = - numeral n"
  using nearest_double_of_int[of "- numeral n"] by simp

lemma nearest_double_neg_1: "nearest_double (- 1) = - 1"
  using nearest_double_of_int[of "- 1"] by simp

lemmas number_eval = value_of_number num_add_def num_sub_def num_mul_def num_div_def
  nearest_double_0 nearest_double_1 nearest_double_neg_1 nearest_double_numeral
  nearest_double_neg_numeral

lemma num_mul_one: "num_mul a (number 1) = a"
  by (simp add: num_mul_def value_of_number nearest_double_1 number_value_of)

lemma num_mul_commute: "num_mul a b = num_mul b a"
  by (simp add: num_mul_def mult.commute)

lemma value_of_grid: "\<exists>k. value_of a = of_int k * 2 powi (- 1074)"
  using nearest_double_grid[of "value_of a"] by (simp add: nearest_double_value_of)

lemma num_sub_sign: "(value_of (num_sub b a) \<le> 0) = (value_of b \<le> value_of a)"
proof (cases "value_of b \<le> value_of a")
  case True
  then have "nearest_double (value_of b - value_of a) \<le> 0"
    by (intro nearest_double_nonpos) simp
  with True show ?thesis by (simp add: num_sub_def value_of_number)
next
  case False
  from value_of_grid[of a] obtain ka where ka: "value_of a = of_int ka * 2 powi (- 1074)" ..
  from value_of_grid[of b] obtain kb where kb: "value_of b = of_int kb * 2 powi (- 1074)" ..
  from False have "of_int ka * (2::rat) powi (- 1074) < of_int kb * 2 powi (- 1074)"
    by (simp add: ka kb)
  then have "(of_int ka :: rat) < of_int kb"
    using two_powi_pos[of "- 1074"] by (simp only: mult_less_cancel_right_pos)
  then have "1 \<le> kb - ka" by simp
  then have "(1::rat) \<le> of_int (kb - ka)" by (simp only: of_int_1_le_iff)
  then have "1 * (2::rat) powi (- 1074) \<le> of_int (kb - ka) * 2 powi (- 1074)"
    using two_powi_pos[of "- 1074"] by (intro mult_right_mono) simp_all
  then have "(2::rat) powi (- 1074) \<le> value_of b - value_of a"
    by (simp add: ka kb left_diff_distrib)
  then have "0 < nearest_double (value_of b - value_of a)" by (rule nearest_double_pos)
  with False show ?thesis by (simp add: num_sub_def value_of_number)
qed

section \<open>The small blog, evaluated\<close>

lemmas blog_defs = blog_def hello_post_def second_post_def draft_post_def third_post_def
  fourth_post_def fifth_post_def alice_def bob_def root_comment_def reply_one_def reply_two_def
  reply_to_reply_def

lemma blog_published:
  "find_published (posts blog) = [hello_post, second_post, third_post, fourth_post, fifth_post]"
  by (simp add: blog_defs find_published_def)

lemma blog_hello: "findById p_id (posts blog) ''0000000000000000000000b1'' = Some hello_post"
  by (simp add: blog_defs findById_def)

lemma blog_root: "findById c_id (comments blog) ''0000000000000000000000c0'' = Some root_comment"
  by (simp add: blog_defs findById_def)

lemma blog_alice: "findById u_id (users blog) ''0000000000000000000000a1'' = Some alice"
  by (simp add: blog_defs findById_def)

lemmas parse_defs = parseInt_def is_white_space_def is_digit_def digit_value_def digits_value_def

lemma parseInt_2: "parseInt ''2'' = Some 2"
  by (simp add: parse_defs number_eval)

lemma parseInt_0: "parseInt ''0'' = Some 0"
  by (simp add: parse_defs number_eval)

lemma parseInt_nbsp_2: "parseInt [CHR 0xA0, CHR ''2''] = Some 2"
  by (simp add: parse_defs number_eval)

lemma parseInt_abc: "parseInt ''abc'' = None"
  by (simp add: parse_defs)

lemma blog_sorted_ids:
  "map p_id (sortedByTrend blog (steady_clock 7200000)) =
     [''0000000000000000000000b2'', ''0000000000000000000000b1'', ''0000000000000000000000b5'',
      ''0000000000000000000000b6'', ''0000000000000000000000b4'']"
  by (simp add: sortedByTrend_def blog_published postsWithScores_def enumerate_eq_zip
      steady_clock_def array_sort_def compare_trending_def score_post_def Let_def
      post.extend_def scored_post.fields_def hello_post_def second_post_def third_post_def
      fourth_post_def fifth_post_def hours_since_def time_value_def number_eval)

lemma blog_sorted_authors:
  "map author (sortedByTrend blog (steady_clock 7200000)) =
     [''0000000000000000000000a2'', ''0000000000000000000000a1'', ''0000000000000000000000a1'',
      ''0000000000000000000000a1'', ''0000000000000000000000a1'']"
  by (simp add: sortedByTrend_def blog_published postsWithScores_def enumerate_eq_zip
      steady_clock_def array_sort_def compare_trending_def score_post_def Let_def
      post.extend_def scored_post.fields_def hello_post_def second_post_def third_post_def
      fourth_post_def fifth_post_def hours_since_def time_value_def number_eval)

lemma blog_authors:
  "\<forall>p \<in> set (sortedPosts blog (steady_clock 7200000) q).
     findById u_id (users blog) (author p) \<noteq> None"
proof
  fix p assume "p \<in> set (sortedPosts blog (steady_clock 7200000) q)"
  then have "p \<in> set (sortedByTrend blog (steady_clock 7200000))"
    by (auto simp: sortedPosts_def slice0_def dest: in_set_takeD split: if_splits)
  then have "author p \<in> set (map author (sortedByTrend blog (steady_clock 7200000)))" by simp
  then show "findById u_id (users blog) (author p) \<noteq> None"
    unfolding blog_sorted_authors by (auto simp: blog_defs findById_def)
qed



lemma blog_likes_distinct: "likes_distinct blog"
  by (simp add: likes_distinct_def blog_defs)

section \<open>Facts about slugs\<close>

lemmas char_sets = upper_letters_def lower_letters_def digits_def

lemma slug_hello_world: "slug_of_title ''Hello, World!'' = ''hello-world''"
  by (simp add: slug_of_title_def toLowerCase_def toLowerCase_char_def in_az09_def
      replace_edge_hyphens_def char_sets latin_upper_def latin_lower_def)

lemma lower_not_upper: "d \<in> set (lower_letters @ latin_lower) \<Longrightarrow> d \<notin> set upper_letters"
  unfolding char_sets latin_lower_def by auto

lemma case_table_length:
  "length (upper_letters @ latin_upper) = length (lower_letters @ latin_lower)"
  by (simp add: char_sets latin_upper_def latin_lower_def)

lemma toLowerCase_char_not_upper: "toLowerCase_char c \<notin> set upper_letters"
proof (cases "map_of (zip (upper_letters @ latin_upper) (lower_letters @ latin_lower)) c")
  case None
  then have "c \<notin> fst ` set (zip (upper_letters @ latin_upper) (lower_letters @ latin_lower))"
    by (simp add: map_of_eq_None_iff)
  then have "c \<notin> set (upper_letters @ latin_upper)"
    using case_table_length by (metis map_fst_zip set_map)
  then have "c \<notin> set upper_letters" by simp
  with None show ?thesis by (simp add: toLowerCase_char_def)
next
  case (Some d)
  then have "d \<in> set (lower_letters @ latin_lower)"
    by (meson map_of_SomeD set_zip_rightD)
  then have "d \<notin> set upper_letters" by (rule lower_not_upper)
  with Some show ?thesis by (simp add: toLowerCase_char_def)
qed

lemma alnum_lower: "alphanumeric (toLowerCase_char c) = in_az09 (toLowerCase_char c)"
  by (simp add: alphanumeric_def in_az09_def toLowerCase_char_not_upper)

lemma hyphen_not_az09: "\<not> in_az09 CHR ''-''"
  by (simp add: in_az09_def char_sets)

lemma runs_alnum:
  "alphanumeric c \<Longrightarrow> hyphenate_runs (c # cs) = c # hyphenate_runs cs"
  by (cases cs) (auto simp: hyphenate_runs_def)

lemma runs_other:
  "\<not> alphanumeric c \<Longrightarrow>
     hyphenate_runs (c # cs) = CHR ''-'' # hyphenate_runs (dropWhile (\<lambda>d. \<not> alphanumeric d) cs)"
  by (simp add: hyphenate_runs_def)

lemma hyphenate_runs_replace:
  "\<forall>c \<in> set s. alphanumeric c = in_az09 c \<Longrightarrow> hyphenate_runs s = replace_non_az09 s"
proof (induction s rule: replace_non_az09.induct)
  case 1
  show ?case by (simp add: hyphenate_runs_def)
next
  case (2 c cs)
  show ?case
  proof (cases "in_az09 c")
    case True
    with 2 show ?thesis by (simp add: runs_alnum)
  next
    case False
    have sub: "\<forall>d \<in> set (dropWhile (\<lambda>d. \<not> in_az09 d) cs). alphanumeric d = in_az09 d"
      using 2(3) by (auto dest: set_dropWhileD)
    have eq: "dropWhile (\<lambda>d. \<not> alphanumeric d) cs = dropWhile (\<lambda>d. \<not> in_az09 d) cs"
      using 2(3) by (intro dropWhile_cong) auto
    from False 2(3) have "\<not> alphanumeric c" by simp
    then show ?thesis
      using False 2(2)[OF False sub] by (simp add: runs_other eq)
  qed
qed

lemma successively_no_double_Cons:
  assumes "successively no_double xs" and "xs \<noteq> [] \<Longrightarrow> a \<noteq> CHR ''-'' \<or> hd xs \<noteq> CHR ''-''"
  shows "successively no_double (a # xs)"
proof (cases xs)
  case Nil
  then show ?thesis by simp
next
  case (Cons y ys)
  with assms show ?thesis by (simp add: no_double_def)
qed

lemma hd_replace_az09:
  assumes "d = [] \<or> in_az09 (hd d)" and "replace_non_az09 d \<noteq> []"
  shows "hd (replace_non_az09 d) \<noteq> CHR ''-''"
proof (cases d)
  case Nil
  with assms(2) show ?thesis by simp
next
  case (Cons y ys)
  with assms(1) have y: "in_az09 y" by simp
  then have "y \<noteq> CHR ''-''" using hyphen_not_az09 by blast
  with Cons y show ?thesis by simp
qed

lemma hd_replace_after_run:
  "replace_non_az09 (dropWhile (\<lambda>d. \<not> in_az09 d) cs) \<noteq> [] \<Longrightarrow>
     hd (replace_non_az09 (dropWhile (\<lambda>d. \<not> in_az09 d) cs)) \<noteq> CHR ''-''"
proof (rule hd_replace_az09)
  show "dropWhile (\<lambda>d. \<not> in_az09 d) cs = [] \<or> in_az09 (hd (dropWhile (\<lambda>d. \<not> in_az09 d) cs))"
    using hd_dropWhile[of "\<lambda>d. \<not> in_az09 d" cs] by blast
qed

lemma succ_replace: "successively no_double (replace_non_az09 s)"
proof (induction s rule: replace_non_az09.induct)
  case 1
  show ?case by simp
next
  case (2 c cs)
  show ?case
  proof (cases "in_az09 c")
    case True
    then have "c \<noteq> CHR ''-''" using hyphen_not_az09 by blast
    moreover have "successively no_double (replace_non_az09 cs)" using 2(1) True by blast
    ultimately have "successively no_double (c # replace_non_az09 cs)"
      by (intro successively_no_double_Cons) simp_all
    with True show ?thesis by simp
  next
    case False
    let ?d = "dropWhile (\<lambda>d. \<not> in_az09 d) cs"
    have "successively no_double (replace_non_az09 ?d)" using 2(2) False by blast
    then have "successively no_double (CHR ''-'' # replace_non_az09 ?d)"
      by (intro successively_no_double_Cons) (simp_all add: hd_replace_after_run)
    with False show ?thesis by simp
  qed
qed

lemma dropWhile_hyphen:
  "successively no_double xs \<Longrightarrow>
     dropWhile (\<lambda>c. c = CHR ''-'') xs =
       (case xs of [] \<Rightarrow> [] | c # cs \<Rightarrow> if c = CHR ''-'' then cs else xs)"
proof (cases xs)
  case Nil
  then show ?thesis by simp
next
  case (Cons c cs)
  assume s: "successively no_double xs"
  show ?thesis
  proof (cases cs)
    case Nil
    with Cons show ?thesis by simp
  next
    case (Cons d ds)
    with s \<open>xs = c # cs\<close> have "\<not> (c = CHR ''-'' \<and> d = CHR ''-'')" by (simp add: no_double_def)
    with Cons \<open>xs = c # cs\<close> show ?thesis by auto
  qed
qed

lemma no_double_rev: "successively no_double (rev xs) = successively no_double xs"
proof -
  have "(\<lambda>x y. no_double y x) = no_double" by (intro ext) (auto simp: no_double_def)
  then show ?thesis by (simp only: successively_rev)
qed

lemma trim_tail:
  assumes "successively no_double xs"
  shows "rev (dropWhile (\<lambda>c. c = CHR ''-'') (rev xs)) =
           (if xs \<noteq> [] \<and> last xs = CHR ''-'' then butlast xs else xs)"
proof (cases xs rule: rev_cases)
  case Nil
  then show ?thesis by simp
next
  case (snoc ys y)
  from assms have "successively no_double (rev xs)" by (simp only: no_double_rev)
  from dropWhile_hyphen[OF this] snoc show ?thesis by simp
qed

lemma trim_head:
  assumes "successively no_double s"
  shows "successively no_double (case s of [] \<Rightarrow> [] | c # cs \<Rightarrow> if c = CHR ''-'' then cs else s)"
proof (cases s)
  case Nil
  then show ?thesis by simp
next
  case (Cons c cs)
  with assms have "successively no_double cs" by (cases cs) simp_all
  with Cons assms show ?thesis by simp
qed

lemma trim_edge:
  assumes "successively no_double s"
  shows "trim_hyphens s = replace_edge_hyphens s"
  unfolding trim_hyphens_def replace_edge_hyphens_def Let_def
  by (simp only: dropWhile_hyphen[OF assms] trim_tail[OF trim_head[OF assms]])

lemma slug_refines: "slug_of_title t = slug_spec t"
proof -
  have "\<forall>c \<in> set (toLowerCase t). alphanumeric c = in_az09 c"
    unfolding toLowerCase_def by (simp add: alnum_lower)
  then have "hyphenate_runs (toLowerCase t) = replace_non_az09 (toLowerCase t)"
    by (rule hyphenate_runs_replace)
  then show ?thesis
    unfolding slug_of_title_def slug_spec_def
    by (simp only: trim_edge[OF succ_replace])
qed

lemma toLowerCase_char_other:
  "c \<notin> set (upper_letters @ latin_upper) \<Longrightarrow> toLowerCase_char c = c"
proof -
  assume "c \<notin> set (upper_letters @ latin_upper)"
  then have "c \<notin> fst ` set (zip (upper_letters @ latin_upper) (lower_letters @ latin_lower))"
    using case_table_length by (metis map_fst_zip set_map)
  then have "map_of (zip (upper_letters @ latin_upper) (lower_letters @ latin_lower)) c = None"
    by (simp add: map_of_eq_None_iff)
  then show ?thesis by (simp add: toLowerCase_char_def)
qed

lemma white_space_not_upper: "is_white_space c \<Longrightarrow> c \<notin> set (upper_letters @ latin_upper)"
  unfolding is_white_space_def upper_letters_def latin_upper_def by auto

lemma white_space_not_lower: "is_white_space c \<Longrightarrow> \<not> in_az09 c"
  unfolding is_white_space_def in_az09_def lower_letters_def digits_def by auto

lemma white_space_not_az09: "is_white_space c \<Longrightarrow> \<not> in_az09 (toLowerCase_char c)"
proof -
  assume w: "is_white_space c"
  then have "toLowerCase_char c = c"
    by (intro toLowerCase_char_other white_space_not_upper)
  with white_space_not_lower[OF w] show ?thesis by simp
qed

lemma replace_no_az09:
  assumes "\<forall>c \<in> set s. \<not> in_az09 c"
  shows "replace_non_az09 s = [] \<or> replace_non_az09 s = ''-''"
proof (cases s)
  case Nil
  then show ?thesis by simp
next
  case (Cons c cs)
  from assms Cons have d: "dropWhile (\<lambda>d. \<not> in_az09 d) cs = []" by simp
  from assms Cons have nc: "\<not> in_az09 c" by simp
  have "replace_non_az09 (c # cs) =
      CHR ''-'' # replace_non_az09 (dropWhile (\<lambda>d. \<not> in_az09 d) cs)"
    by (simp only: replace_non_az09.simps nc if_False)
  also have "\<dots> = ''-''" by (simp only: d replace_non_az09.simps)
  finally have "replace_non_az09 s = ''-''" by (simp only: Cons)
  then show ?thesis by (rule disjI2)
qed

lemma slug_of_blank:
  assumes "\<forall>c \<in> set t. is_white_space c"
  shows "slug_of_title t = []"
proof -
  have "\<forall>c \<in> set (toLowerCase t). \<not> in_az09 c"
    using assms by (auto simp: toLowerCase_def white_space_not_az09)
  from replace_no_az09[OF this] show ?thesis
    by (auto simp: slug_of_title_def replace_edge_hyphens_def)
qed

lemma trim_Nil_blank:
  assumes "trim t = []"
  shows "\<forall>c \<in> set t. is_white_space c"
proof -
  from assms have "dropWhile is_white_space (rev (dropWhile is_white_space t)) = []"
    by (simp add: trim_def)
  then have "\<forall>c \<in> set (dropWhile is_white_space t). is_white_space c"
    by simp
  moreover have "dropWhile is_white_space t \<noteq> [] \<Longrightarrow> \<not> is_white_space (hd (dropWhile is_white_space t))"
    by (rule hd_dropWhile)
  ultimately have "dropWhile is_white_space t = []"
    by (metis hd_in_set)
  then show ?thesis by simp
qed

lemma slug_nonempty_title: "slug_of_title t \<noteq> [] \<Longrightarrow> trim t \<noteq> []"
  using slug_of_blank trim_Nil_blank by blast


section \<open>The trending score\<close>

lemma truncate_score_post: "post.truncate (score_post now p) = p"
  by (simp add: score_post_def Let_def post.truncate_def post.extend_def)


lemma value_of_24: "value_of (number 24) = 24"
  by (simp add: number_eval)

lemma age_penalty_max:
  "(if value_of (number 24) < value_of h
    then num_mul (num_sub h (number 24)) (number (1 / 10)) else number 0)
   = num_mul (num_max (number 0) (num_sub h (number 24))) (number (1 / 10))"
proof (cases "value_of (number 24) < value_of h")
  case True
  then have "0 \<le> value_of h - value_of (number 24)" by simp
  then have "0 \<le> nearest_double (value_of h - value_of (number 24))"
    by (rule nearest_double_nonneg)
  then have "num_max (number 0) (num_sub h (number 24)) = num_sub h (number 24)"
    by (simp add: num_max_def num_sub_def value_of_number nearest_double_0)
  with True show ?thesis by simp
next
  case False
  then have "value_of h - value_of (number 24) \<le> 0" by simp
  then have le: "nearest_double (value_of h - value_of (number 24)) \<le> 0"
    by (rule nearest_double_nonpos)
  have "value_of (num_max (number 0) (num_sub h (number 24))) = 0"
  proof (cases "nearest_double (value_of h - value_of (number 24)) = 0")
    case True
    then show ?thesis by (simp add: num_max_def num_sub_def value_of_number nearest_double_0)
  next
    case False
    with le have "nearest_double (value_of h - value_of (number 24)) < 0" by simp
    then show ?thesis by (simp add: num_max_def num_sub_def value_of_number nearest_double_0)
  qed
  then have "num_mul (num_max (number 0) (num_sub h (number 24))) (number (1 / 10)) = number 0"
    by (simp add: num_mul_def)
  with False show ?thesis by simp
qed

lemma trendingScore_score_post: "trendingScore (score_post now p) = spec_score now p"
proof -
  have "trendingScore (score_post now p) =
      num_sub (num_add (num_mul (views p) (number 1))
                 (num_mul (number (of_nat (length (likes p)))) (number 3)))
        (if value_of (number 24) < value_of (hours_since now (created_at p))
         then num_mul (num_sub (hours_since now (created_at p)) (number 24)) (number (1 / 10))
         else number 0)"
    by (simp add: score_post_def Let_def post.extend_def scored_post.fields_def)
  also have "\<dots> = spec_score now p"
    unfolding age_penalty_max spec_score_def Let_def
    by (simp only: num_mul_one num_mul_commute[of "number 3"])
  finally show ?thesis .
qed

lemma scored_pairs_enumerate:
  "map (\<lambda>sp. (post.truncate sp, trendingScore sp))
       (map (\<lambda>(k, p). score_post (clock k) p) (enumerate n ps))
   = map (\<lambda>(k, p). (p, spec_score (clock k) p)) (enumerate n ps)"
  by (induction ps arbitrary: n) (simp_all add: truncate_score_post trendingScore_score_post)

lemma mset_insert_by: "mset (insert_by cmp x ys) = add_mset x (mset ys)"
  by (induction ys) simp_all

lemma mset_array_sort: "mset (array_sort cmp xs) = mset xs"
  by (induction xs) (simp_all add: array_sort_def mset_insert_by)

lemma scored_sortedByTrend:
  "mset (map (\<lambda>sp. (post.truncate sp, trendingScore sp)) (sortedByTrend st clock))
   = mset (map (\<lambda>(k, p). (p, spec_score (clock k) p))
             (enumerate 0 (find_published (posts st))))"
proof -
  have "mset (map (\<lambda>sp. (post.truncate sp, trendingScore sp)) (sortedByTrend st clock)) =
        mset (map (\<lambda>sp. (post.truncate sp, trendingScore sp))
               (postsWithScores clock (find_published (posts st))))"
    by (simp add: sortedByTrend_def mset_array_sort)
  then show ?thesis by (simp only: postsWithScores_def scored_pairs_enumerate)
qed



lemma map_throwing_Inr:
  "map_throwing f xs = Inr ys \<Longrightarrow> map f xs = map Inr ys"
  by (induction xs arbitrary: ys) (auto split: sum.splits)

lemma map_throwing_total:
  "\<forall>x \<in> set xs. \<exists>v. f x = Inr v \<Longrightarrow> \<exists>ys. map_throwing f xs = Inr ys"
  by (induction xs) (auto split: sum.splits)

lemma trending_view_of_Inr:
  "trending_view_of us (k, p) = Inr v \<Longrightarrow>
     tv_id v = p_id p \<and> tv_rank v = Suc k \<and> tv_views v = views p
     \<and> tv_likes v = length (likes p) \<and> tv_trendingScore v = round2 (trendingScore p)"
  by (auto simp: trending_view_of_def split: option.splits)

lemma map_throwing_views:
  assumes "map_throwing (trending_view_of us) (enumerate n ps) = Inr vs"
  shows "map tv_id vs = map p_id ps \<and> map tv_rank vs = [Suc n..<Suc n + length ps]
       \<and> map (\<lambda>v. (tv_id v, tv_views v, tv_likes v, tv_trendingScore v)) vs
         = map (\<lambda>sp. (p_id sp, views sp, length (likes sp), round2 (trendingScore sp))) ps"
  using assms
proof (induction ps arbitrary: n vs)
  case Nil
  then show ?case by simp
next
  case (Cons p ps)
  from Cons.prems obtain v vs' where v: "trending_view_of us (n, p) = Inr v"
    and vs': "map_throwing (trending_view_of us) (enumerate (Suc n) ps) = Inr vs'"
    and vs: "vs = v # vs'"
    by (auto split: sum.splits)
  from Cons.IH[OF vs'] have i1: "map tv_id vs' = map p_id ps"
    and i2: "map tv_rank vs' = [Suc (Suc n)..<Suc (Suc n) + length ps]"
    and i3: "map (\<lambda>v. (tv_id v, tv_views v, tv_likes v, tv_trendingScore v)) vs'
         = map (\<lambda>sp. (p_id sp, views sp, length (likes sp), round2 (trendingScore sp))) ps"
    by blast+
  from trending_view_of_Inr[OF v] have e1: "tv_id v = p_id p" and e2: "tv_rank v = Suc n"
    and e3: "tv_views v = views p" and e4: "tv_likes v = length (likes p)"
    and e5: "tv_trendingScore v = round2 (trendingScore p)"
    by blast+
  have u: "[Suc n..<Suc n + length (p # ps)] = Suc n # [Suc (Suc n)..<Suc (Suc n) + length ps]"
    by (subst upt_conv_Cons) simp_all
  show ?case unfolding vs u by (simp only: list.map i1 i2 i3 e1 e2 e3 e4 e5 simp_thms)
qed

lemma getTrendingPosts_Inr:
  assumes "getTrendingPosts st clock q = Inr vs"
  shows "map tv_id vs = map p_id (sortedPosts st clock q)
       \<and> map tv_rank vs = [1..<Suc (length vs)]
       \<and> map (\<lambda>v. (tv_id v, tv_views v, tv_likes v, tv_trendingScore v)) vs
         = map (\<lambda>sp. (p_id sp, views sp, length (likes sp), round2 (trendingScore sp)))
             (sortedPosts st clock q)"
proof -
  from assms have m: "map_throwing (trending_view_of (users st)) (enumerate 0 (sortedPosts st clock q)) = Inr vs"
    by (auto simp: getTrendingPosts_def split: sum.splits)
  from map_throwing_views[OF m] have a: "map tv_id vs = map p_id (sortedPosts st clock q)"
    and b: "map tv_rank vs = [Suc 0..<Suc 0 + length (sortedPosts st clock q)]"
    and c: "map (\<lambda>v. (tv_id v, tv_views v, tv_likes v, tv_trendingScore v)) vs
         = map (\<lambda>sp. (p_id sp, views sp, length (likes sp), round2 (trendingScore sp)))
             (sortedPosts st clock q)" by simp_all
  from a have "length vs = length (sortedPosts st clock q)" by (metis length_map)
  with a b c show ?thesis by simp
qed

lemma getTrendingPosts_total:
  assumes "\<forall>p \<in> set (sortedPosts st clock q). findById u_id (users st) (author p) \<noteq> None"
  shows "\<exists>vs. getTrendingPosts st clock q = Inr vs"
proof -
  have "\<forall>x \<in> set (enumerate 0 (sortedPosts st clock q)). \<exists>v. trending_view_of (users st) x = Inr v"
  proof
    fix x assume "x \<in> set (enumerate 0 (sortedPosts st clock q))"
    then have "snd x \<in> set (sortedPosts st clock q)"
      by (metis imageI map_snd_enumerate set_map)
    with assms have "findById u_id (users st) (author (snd x)) \<noteq> None" by blast
    then show "\<exists>v. trending_view_of (users st) x = Inr v"
      by (cases x) (auto simp: trending_view_of_def populate_def split: option.splits)
  qed
  from map_throwing_total[OF this] show ?thesis
    by (auto simp: getTrendingPosts_def)
qed
















section \<open>The trending order\<close>

lemma compare_trending_le: "(value_of (compare_trending a b) \<le> 0) = trend_before a b"
  by (auto simp: compare_trending_def trend_before_def num_sub_sign)

lemma trend_before_total: "\<not> trend_before a b \<Longrightarrow> trend_before b a"
  by (auto simp: trend_before_def)

lemma trend_before_trans: "trend_before a b \<Longrightarrow> trend_before b c \<Longrightarrow> trend_before a c"
  by (auto simp: trend_before_def)

lemma set_insert_by: "set (insert_by cmp x ys) = insert x (set ys)"
  by (induction ys) auto

lemma sorted_insert_by:
  "sorted_wrt trend_before ys \<Longrightarrow> sorted_wrt trend_before (insert_by compare_trending x ys)"
proof (induction ys)
  case Nil
  then show ?case by simp
next
  case (Cons y ys)
  show ?case
  proof (cases "trend_before x y")
    case True
    then have "\<forall>z \<in> set ys. trend_before x z"
      using Cons.prems trend_before_trans by auto
    with True Cons.prems show ?thesis by (simp add: compare_trending_le)
  next
    case False
    then have "trend_before y x" by (rule trend_before_total)
    with False Cons show ?thesis by (simp add: compare_trending_le set_insert_by)
  qed
qed

lemma sorted_array_sort: "sorted_wrt trend_before (array_sort compare_trending xs)"
proof (induction xs)
  case Nil
  show ?case by (simp add: array_sort_def)
next
  case (Cons x xs)
  then have "sorted_wrt trend_before (insert_by compare_trending x (array_sort compare_trending xs))"
    by (rule sorted_insert_by)
  then show ?case by (simp add: array_sort_def)
qed

lemma limit_or_None: "limit_or None d = d"
  by (simp add: limit_or_def)

lemma limit_or_pos: "parseInt s = Some n \<Longrightarrow> n \<noteq> 0 \<Longrightarrow> limit_or (Some s) d = n"
  by (simp add: limit_or_def)

lemma limit_or_falsy: "parseInt s = None \<or> parseInt s = Some 0 \<Longrightarrow> limit_or (Some s) d = d"
  by (auto simp: limit_or_def)

lemma time_value_exact: "\<bar>t\<bar> \<le> 8640000000000000 \<Longrightarrow> value_of (time_value t) = of_int t"
  unfolding time_value_def by (rule value_of_number_of_int) simp

text \<open>
  Claim C2, amended. The list that getTrendingPosts sorts consists of the published posts,
  each with the score of claim C1; after the sort a higher score comes first and, at equal
  scores, the later creation time; the list is cut to its first N entries, where N is 4
  when no limit is given, the requested limit when it parses to a positive integer, and 4
  again when the requested limit does not parse or parses to 0. When the authors of the
  posts of the cut list are stored, the answer lists these posts in this order with the
  ranks 1, 2, and so on.
\<close>

theorem C2_trending_order:
  "mset (map (\<lambda>sp. (post.truncate sp, trendingScore sp)) (sortedByTrend st clock))
     = mset (map (\<lambda>(k, p). (p, spec_score (clock k) p))
               (enumerate 0 (find_published (posts st))))
 \<and> sorted_wrt trend_before (sortedByTrend st clock)
 \<and> (\<bar>t\<bar> \<le> 8640000000000000 \<longrightarrow> value_of (time_value t) = of_int t)
 \<and> (q = None \<longrightarrow> sortedPosts st clock q = take 4 (sortedByTrend st clock))
 \<and> (q = Some s \<and> parseInt s = Some n \<and> 0 < n \<longrightarrow>
       sortedPosts st clock q = take (nat n) (sortedByTrend st clock))
 \<and> (q = Some s \<and> (parseInt s = None \<or> parseInt s = Some 0) \<longrightarrow>
       sortedPosts st clock q = take 4 (sortedByTrend st clock))
 \<and> (getTrendingPosts st clock q = Inr vs \<longrightarrow>
       map tv_id vs = map p_id (sortedPosts st clock q) \<and> map tv_rank vs = [1..<Suc (length vs)])
 \<and> ((\<forall>p \<in> set (sortedPosts st clock q). findById u_id (users st) (author p) \<noteq> None) \<longrightarrow>
       (\<exists>vs. getTrendingPosts st clock q = Inr vs))"
proof -
  have a: "q = None \<longrightarrow> sortedPosts st clock q = take 4 (sortedByTrend st clock)"
    by (simp add: sortedPosts_def limit_or_None slice0_def)
  have b: "q = Some s \<and> parseInt s = Some n \<and> 0 < n \<longrightarrow>
       sortedPosts st clock q = take (nat n) (sortedByTrend st clock)"
    by (auto simp: sortedPosts_def limit_or_pos slice0_def)
  have c: "q = Some s \<and> (parseInt s = None \<or> parseInt s = Some 0) \<longrightarrow>
       sortedPosts st clock q = take 4 (sortedByTrend st clock)"
    using limit_or_falsy[of s 4] by (auto simp: sortedPosts_def slice0_def)
  have d: "sorted_wrt trend_before (sortedByTrend st clock)"
    unfolding sortedByTrend_def by (rule sorted_array_sort)
  from a b c d scored_sortedByTrend[of st clock] getTrendingPosts_Inr[of st clock q vs]
    getTrendingPosts_total[of st clock q] time_value_exact[of t]
  show ?thesis by blast
qed

lemma getTrendingPosts_missing_author:
  assumes "sortedPosts st clock q = sp # rest"
    and "findById u_id (users st) (author sp) = None"
  shows "getTrendingPosts st clock q = Inl (Status500 TypeError)"
  using assms by (simp add: getTrendingPosts_def trending_view_of_def populate_def)

lemma without_bob_sorted_authors:
  "map author (sortedPosts blog_without_bob (steady_clock 7200000) None) =
     [''0000000000000000000000a2'', ''0000000000000000000000a1'', ''0000000000000000000000a1'',
      ''0000000000000000000000a1'']"
proof -
  have "sortedByTrend blog_without_bob (steady_clock 7200000)
      = sortedByTrend blog (steady_clock 7200000)"
    by (simp add: sortedByTrend_def blog_without_bob_def)
  then show ?thesis
    by (simp add: sortedPosts_def limit_or_def slice0_def blog_sorted_authors flip: take_map)
qed

lemma without_bob_answer:
  "getTrendingPosts blog_without_bob (steady_clock 7200000) None = Inl (Status500 TypeError)"
proof -
  from without_bob_sorted_authors obtain sp rest where
    s: "sortedPosts blog_without_bob (steady_clock 7200000) None = sp # rest"
    and a: "author sp = ''0000000000000000000000a2''"
    by (cases "sortedPosts blog_without_bob (steady_clock 7200000) None") auto
  have "findById u_id (users blog_without_bob) (author sp) = None"
    unfolding a by (simp add: blog_without_bob_def blog_defs findById_def)
  with s show ?thesis by (rule getTrendingPosts_missing_author)
qed

theorem C2_trending_order_witness:
  "parseInt ''2'' = Some 2 \<and> parseInt ''0'' = Some 0 \<and> parseInt ''abc'' = None
 \<and> map p_id (find_published (posts blog)) =
       [''0000000000000000000000b1'', ''0000000000000000000000b2'', ''0000000000000000000000b4'',
        ''0000000000000000000000b5'', ''0000000000000000000000b6'']
 \<and> map p_id (sortedByTrend blog (steady_clock 7200000)) =
       [''0000000000000000000000b2'', ''0000000000000000000000b1'', ''0000000000000000000000b5'',
        ''0000000000000000000000b6'', ''0000000000000000000000b4'']
 \<and> sorted_wrt trend_before (sortedByTrend blog (steady_clock 7200000))
 \<and> map p_id (sortedPosts blog (steady_clock 7200000) None) =
       [''0000000000000000000000b2'', ''0000000000000000000000b1'', ''0000000000000000000000b5'',
        ''0000000000000000000000b6'']
 \<and> map p_id (sortedPosts blog (steady_clock 7200000) (Some ''2'')) =
       [''0000000000000000000000b2'', ''0000000000000000000000b1'']
 \<and> map p_id (sortedPosts blog (steady_clock 7200000) (Some ''abc'')) =
       [''0000000000000000000000b2'', ''0000000000000000000000b1'', ''0000000000000000000000b5'',
        ''0000000000000000000000b6'']
 \<and> (\<exists>vs. getTrendingPosts blog (steady_clock 7200000) (Some ''2'') = Inr vs
        \<and> map tv_id vs = [''0000000000000000000000b2'', ''0000000000000000000000b1'']
        \<and> map tv_rank vs = [1, 2])"
proof -
  let ?c = "steady_clock 7200000"
  note none = C2_trending_order[of blog ?c 0 None "''2''" 2 "[]"]
  note two = C2_trending_order[of blog ?c 0 "Some ''2''" "''2''" 2 "[]"]
  note abc = C2_trending_order[of blog ?c 0 "Some ''abc''" "''abc''" 2 "[]"]
  from none have s: "sorted_wrt trend_before (sortedByTrend blog ?c)" by (elim conjE) assumption
  from none have a: "sortedPosts blog ?c None = take 4 (sortedByTrend blog ?c)"
    by (elim conjE) simp
  from two parseInt_2 have b: "sortedPosts blog ?c (Some ''2'') = take (nat 2) (sortedByTrend blog ?c)"
    by (elim conjE) simp
  from abc parseInt_abc have c: "sortedPosts blog ?c (Some ''abc'') = take 4 (sortedByTrend blog ?c)"
    by (elim conjE) simp
  from two blog_authors obtain vs where v: "getTrendingPosts blog ?c (Some ''2'') = Inr vs"
    by (elim conjE) auto
  note answer = C2_trending_order[of blog ?c 0 "Some ''2''" "''2''" 2 vs]
  from answer v have v1: "map tv_id vs = map p_id (sortedPosts blog ?c (Some ''2''))"
    and v2: "map tv_rank vs = [1..<Suc (length vs)]" by (elim conjE, simp)+
  have b': "map p_id (sortedPosts blog ?c (Some ''2'')) =
       [''0000000000000000000000b2'', ''0000000000000000000000b1'']"
    unfolding b by (simp add: blog_sorted_ids flip: take_map)
  from v1 b' have "length vs = 2" by (metis length_map length_Cons list.size(3) Suc_1 One_nat_def)
  with v2 have v2': "map tv_rank vs = [1, 2]" by (simp add: upt_rec)
  have p: "map p_id (find_published (posts blog)) =
       [''0000000000000000000000b1'', ''0000000000000000000000b2'', ''0000000000000000000000b4'',
        ''0000000000000000000000b5'', ''0000000000000000000000b6'']"
    by (simp add: blog_published hello_post_def second_post_def third_post_def fourth_post_def
        fifth_post_def)
  have a': "map p_id (sortedPosts blog ?c None) =
       [''0000000000000000000000b2'', ''0000000000000000000000b1'', ''0000000000000000000000b5'',
        ''0000000000000000000000b6'']"
    unfolding a by (simp add: blog_sorted_ids flip: take_map)
  have c': "map p_id (sortedPosts blog ?c (Some ''abc'')) =
       [''0000000000000000000000b2'', ''0000000000000000000000b1'', ''0000000000000000000000b5'',
        ''0000000000000000000000b6'']"
    unfolding c by (simp add: blog_sorted_ids flip: take_map)
  from v v1 v2' b' have e: "\<exists>vs. getTrendingPosts blog ?c (Some ''2'') = Inr vs
        \<and> map tv_id vs = [''0000000000000000000000b2'', ''0000000000000000000000b1'']
        \<and> map tv_rank vs = [1, 2]" by (intro exI[of _ vs] conjI) simp_all
  show ?thesis
    by (intro conjI) (simp_all only: parseInt_2 parseInt_0 parseInt_abc p blog_sorted_ids s a' b' c' e)
qed

text \<open>
  With the requested limit 0, \<^verbatim>\<open>parseInt(...) || 4\<close> is 4: four posts are listed, not
  the first 0. With a listed post whose author is not stored, reading the author's name
  throws, and the answer is the status 500 of the catch-all.
\<close>

theorem C2_limit_zero_counterexample:
  "parseInt ''0'' = Some 0
 \<and> sortedPosts blog (steady_clock 7200000) (Some ''0'')
      \<noteq> take 0 (sortedByTrend blog (steady_clock 7200000))
 \<and> map p_id (sortedPosts blog (steady_clock 7200000) (Some ''0'')) =
       [''0000000000000000000000b2'', ''0000000000000000000000b1'', ''0000000000000000000000b5'',
        ''0000000000000000000000b6'']
 \<and> getTrendingPosts blog_without_bob (steady_clock 7200000) None = Inl (Status500 TypeError)"
proof -
  have l: "limit_or (Some ''0'') 4 = 4" by (simp add: limit_or_def parseInt_0)
  have m: "map p_id (sortedPosts blog (steady_clock 7200000) (Some ''0'')) =
       [''0000000000000000000000b2'', ''0000000000000000000000b1'', ''0000000000000000000000b5'',
        ''0000000000000000000000b6'']"
    by (simp add: sortedPosts_def l slice0_def blog_sorted_ids flip: take_map)
  then have "sortedPosts blog (steady_clock 7200000) (Some ''0'') \<noteq> []" by auto
  with parseInt_0 m without_bob_answer show ?thesis by simp
qed

section \<open>Views\<close>

lemma getPostById_found:
  assumes "findById p_id (posts st) i = Some p"
  shows "getPostById st now i u =
           (Inr \<lparr>pv_id = p_id p, pv_title = title p, pv_content = content_html p,
                 pv_excerpt = excerpt p, pv_coverImage = cover_image p,
                 pv_author = populate (users st) True (author p),
                 pv_tags = tags p, pv_category = category p,
                 pv_views = num_add (views p) (number 1),
                 pv_likes = length (likes p),
                 pv_userHasLiked = (case u of None \<Rightarrow> False | Some w \<Rightarrow> w \<in> set (likes p)),
                 pv_createdAt = created_at p, pv_updatedAt = now\<rparr>,
            st\<lparr>posts := save p_id (p\<lparr>views := num_add (views p) (number 1), updated_at := now\<rparr>)
                             (posts st)\<rparr>)"
  using assms by (simp add: getPostById_def Let_def split: option.split)

lemma getPostById_views:
  assumes "findById p_id (posts st) i = Some p"
  shows "findById p_id (posts (snd (getPostById st now i u))) i =
           Some (p\<lparr>views := num_add (views p) (number 1), updated_at := now\<rparr>)"
  using assms findById_Some_key[OF assms]
  by (simp add: getPostById_found findById_save)

lemma add_one_exact:
  assumes "value_of a = of_int v" and "- (2 ^ 53) \<le> v" and "v < 2 ^ 53"
  shows "value_of (num_add a (number 1)) = of_int (v + 1)"
proof -
  have "\<bar>v + 1\<bar> \<le> 2 ^ 53" using assms(2,3) by simp
  then have "nearest_double (of_int (v + 1)) = of_int (v + 1)" by (rule nearest_double_of_int)
  then show ?thesis by (simp add: num_add_def value_of_number nearest_double_1 assms(1))
qed

lemma reads_views:
  "findById p_id (posts st) i = Some p \<Longrightarrow> value_of (views p) = of_int v \<Longrightarrow>
     - (2 ^ 53) \<le> v \<Longrightarrow> v + int (length reqs) \<le> 2 ^ 53 \<Longrightarrow>
     \<exists>p'. findById p_id (posts (run st (map (\<lambda>(now, u). GetPostById now i u) reqs))) i = Some p'
          \<and> value_of (views p') = of_int (v + int (length reqs))"
proof (induction reqs arbitrary: st p v)
  case Nil
  then show ?case by (simp add: run_Nil)
next
  case (Cons r reqs)
  obtain now u where r: "r = (now, u)" by (cases r)
  let ?p1 = "p\<lparr>views := num_add (views p) (number 1), updated_at := now\<rparr>"
  have f: "findById p_id (posts (handle st (GetPostById now i u))) i = Some ?p1"
    using getPostById_views[OF Cons.prems(1)] by simp
  have "v < 2 ^ 53" using Cons.prems(4) by simp
  with Cons.prems(2,3) have v1: "value_of (views ?p1) = of_int (v + 1)"
    by (simp add: add_one_exact)
  have lo: "- (2 ^ 53) \<le> v + 1" using Cons.prems(3) by simp
  have hi: "v + 1 + int (length reqs) \<le> 2 ^ 53" using Cons.prems(4) by simp
  from Cons.IH[OF f v1 lo hi] obtain p' where
    "findById p_id (posts (run (handle st (GetPostById now i u)) (map (\<lambda>(now, u). GetPostById now i u) reqs))) i = Some p'"
    "value_of (views p') = of_int (v + 1 + int (length reqs))" by blast
  then show ?case by (simp add: r run_Cons add.assoc add.commute)
qed

text \<open>
  Claim C3, amended. For an existing post whose view counter is an integer v with
  -2^53 \<le> v: a call of getPostById with v < 2^53 answers with the counter v + 1 and stores
  it, and after a sequence of N calls for the post with v + N \<le> 2^53 the stored counter is
  v + N.
\<close>

theorem C3_views:
  assumes "findById p_id (posts st) i = Some p" and "value_of (views p) = of_int v"
    and "- (2 ^ 53) \<le> v"
  shows "(v < 2 ^ 53 \<longrightarrow>
           (\<exists>r. fst (getPostById st now i u) = Inr r \<and> value_of (pv_views r) = of_int (v + 1))
         \<and> (\<exists>p'. findById p_id (posts (snd (getPostById st now i u))) i = Some p'
               \<and> value_of (views p') = of_int (v + 1)))
       \<and> (v + int (length reqs) \<le> 2 ^ 53 \<longrightarrow>
           (\<exists>p'. findById p_id
                   (posts (run st (map (\<lambda>(now, u). GetPostById now i u) reqs))) i = Some p'
               \<and> value_of (views p') = of_int (v + int (length reqs))))"
proof -
  have one: "v < 2 ^ 53 \<Longrightarrow> value_of (num_add (views p) (number 1)) = of_int (v + 1)"
    using assms(2,3) by (rule add_one_exact)
  show ?thesis
    using reads_views[OF assms, of reqs] getPostById_views[OF assms(1), of now u] one
    by (simp add: getPostById_found[OF assms(1)])
qed

lemma busy_found:
  "findById p_id (posts busy_blog) ''0000000000000000000000b1''
     = Some (hello_post\<lparr>views := number 9007199254740992\<rparr>)"
  by (simp add: busy_blog_def findById_def hello_post_def)

theorem C3_views_witness:
  "findById p_id (posts blog) ''0000000000000000000000b1'' = Some hello_post
 \<and> value_of (views hello_post) = of_int 10
 \<and> (\<exists>r. fst (getPostById blog 5 ''0000000000000000000000b1'' None) = Inr r
        \<and> value_of (pv_views r) = 11)
 \<and> (\<exists>p'. findById p_id
        (posts (run blog (map (\<lambda>(now, u). GetPostById now ''0000000000000000000000b1'' u)
           [(5, None), (6, Some ''0000000000000000000000a2''), (7, None)])))
        ''0000000000000000000000b1'' = Some p' \<and> value_of (views p') = 13)"
proof -
  have v: "value_of (views hello_post) = of_int 10"
    by (simp add: hello_post_def number_eval)
  have lo: "- (2 ^ 53) \<le> (10::int)" by simp
  from C3_views[OF blog_hello v lo, of 5 None
      "[(5, None), (6, Some ''0000000000000000000000a2''), (7, None)]"]
  show ?thesis using blog_hello v by simp
qed

text \<open>
  A post with 2^53 views: the sum 2^53 + 1 is no number, and the nearest number is 2^53.
  The read stores the counter it found.
\<close>

lemma nearest_2_53_plus_1: "nearest_double 9007199254740993 = 9007199254740992"
  by code_simp

theorem C3_saturated_counterexample:
  "map_option views (findById p_id (posts busy_blog) ''0000000000000000000000b1'')
     = Some (number 9007199254740992)
 \<and> value_of (number 9007199254740992) = 9007199254740992
 \<and> map_option views
      (findById p_id (posts (snd (getPostById busy_blog 5 ''0000000000000000000000b1'' None)))
         ''0000000000000000000000b1'')
     = Some (number 9007199254740992)"
proof -
  have v: "value_of (number 9007199254740992) = 9007199254740992"
    by (simp add: number_eval)
  have n: "nearest_double 9007199254740992 = 9007199254740992"
    by (simp add: nearest_double_numeral)
  have "value_of (num_add (number 9007199254740992) (number 1)) = 9007199254740992"
    by (simp add: num_add_def value_of_number n nearest_double_1 nearest_2_53_plus_1)
  then have s: "num_add (number 9007199254740992) (number 1) = number 9007199254740992"
    by (simp only: double_eq_iff v)
  show ?thesis
    using getPostById_views[OF busy_found, of 5 None]
    by (simp add: busy_found v s)
qed

section \<open>Likes toggle\<close>

lemma likePost_found:
  assumes "findById p_id (posts st) i = Some p"
  shows "snd (likePost st now i u) =
           st\<lparr>posts := save p_id
                 (p\<lparr>likes := (if u \<in> set (likes p) then filter (\<lambda>l. l \<noteq> u) (likes p)
                                else likes p @ [u]),
                    updated_at := now\<rparr>) (posts st)\<rparr>"
  using assms by (simp add: likePost_def Let_def)

lemma likePost_lookup:
  assumes "findById p_id (posts st) i = Some p"
  shows "findById p_id (posts (snd (likePost st now i u))) i =
           Some (p\<lparr>likes := (if u \<in> set (likes p) then filter (\<lambda>l. l \<noteq> u) (likes p)
                                else likes p @ [u]),
                    updated_at := now\<rparr>)"
  using assms findById_Some_key[OF assms] by (simp add: likePost_found findById_save)

text \<open>
  Claim C4. For an existing post, one call of likePost flips the requester's membership in
  the likes of the post and leaves every other user's membership as it was; after two
  calls in a row by the same user the set of likes is the original one.
\<close>

theorem C4_like_toggle:
  assumes "findById p_id (posts st) i = Some p"
  shows "(\<exists>p1. findById p_id (posts (snd (likePost st now i u))) i = Some p1
             \<and> (u \<in> set (likes p1)) = (u \<notin> set (likes p))
             \<and> (\<forall>w. w \<noteq> u \<longrightarrow> (w \<in> set (likes p1)) = (w \<in> set (likes p))))
       \<and> (\<exists>p2. findById p_id (posts (snd (likePost (snd (likePost st now i u)) now' i u))) i = Some p2
             \<and> set (likes p2) = set (likes p))"
proof -
  let ?p1 = "p\<lparr>likes := (if u \<in> set (likes p) then filter (\<lambda>l. l \<noteq> u) (likes p)
                                else likes p @ [u]), updated_at := now\<rparr>"
  have one: "findById p_id (posts (snd (likePost st now i u))) i = Some ?p1"
    using assms by (rule likePost_lookup)
  have flip: "(u \<in> set (likes ?p1)) = (u \<notin> set (likes p))" by simp
  have others: "\<forall>w. w \<noteq> u \<longrightarrow> (w \<in> set (likes ?p1)) = (w \<in> set (likes p))" by simp
  let ?p2 = "?p1\<lparr>likes := (if u \<in> set (likes ?p1) then filter (\<lambda>l. l \<noteq> u) (likes ?p1)
                                else likes ?p1 @ [u]), updated_at := now'\<rparr>"
  have two: "findById p_id (posts (snd (likePost (snd (likePost st now i u)) now' i u))) i = Some ?p2"
    using one by (rule likePost_lookup)
  have restored: "set (likes ?p2) = set (likes p)" by auto
  from one flip others two restored show ?thesis by blast
qed

theorem C4_like_toggle_witness:
  "findById p_id (posts blog) ''0000000000000000000000b1'' = Some hello_post
 \<and> ''0000000000000000000000a2'' \<in> set (likes hello_post)
 \<and> (\<exists>p1. findById p_id (posts (snd (likePost blog 5 ''0000000000000000000000b1''
         ''0000000000000000000000a2''))) ''0000000000000000000000b1'' = Some p1
       \<and> ''0000000000000000000000a2'' \<notin> set (likes p1))
 \<and> (\<exists>p2. findById p_id (posts (snd (likePost (snd (likePost blog 5 ''0000000000000000000000b1''
         ''0000000000000000000000a2'')) 6 ''0000000000000000000000b1'' ''0000000000000000000000a2'')))
         ''0000000000000000000000b1'' = Some p2
       \<and> set (likes p2) = set (likes hello_post))"
proof -
  have m: "''0000000000000000000000a2'' \<in> set (likes hello_post)" by (simp add: hello_post_def)
  from C4_like_toggle[OF blog_hello, of 5 "''0000000000000000000000a2''" 6] m blog_hello
  show ?thesis by blast
qed

section \<open>Deleting a comment\<close>

text \<open>
  Claim C5. When its author deletes a comment, deleteComment succeeds and the store is
  the old one without the comment and without the comments whose parent it is; every
  other document stays. With distinct ids, the number of removed documents is one plus
  the number of direct replies.
\<close>

theorem C5_delete_comment:
  assumes "findById c_id (comments st) i = Some c" and "c_user c = u"
  shows "deleteComment st i u =
           (Inr ''Comment removed'',
            st\<lparr>comments := filter (\<lambda>d. c_id d \<noteq> i \<and> c_parent d \<noteq> Some i) (comments st)\<rparr>)
       \<and> (distinct (map c_id (comments st)) \<longrightarrow>
            length (comments (snd (deleteComment st i u)))
              + 1 + length (filter (\<lambda>d. c_id d \<noteq> i \<and> c_parent d = Some i) (comments st))
              = length (comments st))"
proof -
  have res: "deleteComment st i u =
           (Inr ''Comment removed'',
            st\<lparr>comments := filter (\<lambda>d. c_id d \<noteq> i \<and> c_parent d \<noteq> Some i) (comments st)\<rparr>)"
    using assms by (simp add: deleteComment_def deleteMany_def)
  have cnt: "length (comments (snd (deleteComment st i u)))
              + 1 + length (filter (\<lambda>d. c_id d \<noteq> i \<and> c_parent d = Some i) (comments st))
              = length (comments st)" if d: "distinct (map c_id (comments st))"
  proof -
    let ?cs = "comments st"
    have a: "length (filter (\<lambda>d. c_id d = i) ?cs) = 1"
      using findById_distinct_unique[OF d assms(1)] by simp
    have b: "length (filter (\<lambda>d. c_id d = i) ?cs) + length (filter (\<lambda>d. \<not> c_id d = i) ?cs) = length ?cs"
      by (rule length_filter_split)
    have c: "length (filter (\<lambda>d. c_parent d = Some i) (filter (\<lambda>d. \<not> c_id d = i) ?cs))
           + length (filter (\<lambda>d. \<not> c_parent d = Some i) (filter (\<lambda>d. \<not> c_id d = i) ?cs))
           = length (filter (\<lambda>d. \<not> c_id d = i) ?cs)"
      by (rule length_filter_split)
    from a b c show ?thesis by (simp add: res conj_commute)
  qed
  from res cnt show ?thesis by blast
qed

theorem C5_delete_comment_witness:
  "findById c_id (comments blog) ''0000000000000000000000c0'' = Some root_comment
 \<and> c_user root_comment = ''0000000000000000000000a1''
 \<and> comments blog = [root_comment, reply_one, reply_two, reply_to_reply]
 \<and> c_parent reply_to_reply = Some (c_id reply_one)
 \<and> deleteComment blog ''0000000000000000000000c0'' ''0000000000000000000000a1''
      = (Inr ''Comment removed'', blog\<lparr>comments := [reply_to_reply]\<rparr>)
 \<and> length (comments (snd (deleteComment blog ''0000000000000000000000c0''
        ''0000000000000000000000a1''))) + 3 = length (comments blog)"
proof -
  have u: "c_user root_comment = ''0000000000000000000000a1''" by (simp add: root_comment_def)
  have d: "distinct (map c_id (comments blog))" by (simp add: blog_defs)
  have f: "filter (\<lambda>d. c_id d \<noteq> ''0000000000000000000000c0''
                \<and> c_parent d \<noteq> Some ''0000000000000000000000c0'') (comments blog) = [reply_to_reply]"
    by (simp add: blog_defs)
  from C5_delete_comment[OF blog_root u] f
  have r: "deleteComment blog ''0000000000000000000000c0'' ''0000000000000000000000a1''
      = (Inr ''Comment removed'', blog\<lparr>comments := [reply_to_reply]\<rparr>)" by simp
  have c: "comments blog = [root_comment, reply_one, reply_two, reply_to_reply]"
    by (simp add: blog_def)
  have p: "c_parent reply_to_reply = Some (c_id reply_one)"
    by (simp add: reply_to_reply_def reply_one_def)
  from r c p u blog_root show ?thesis by simp
qed

section \<open>The slug of a new post\<close>

lemma createPost_success:
  assumes "cb_title body = Some t" and "cb_content body = Some c" and "c \<noteq> []"
    and "slug_spec t \<noteq> []" and "slug_spec t \<notin> set (map slug (posts st))"
    and "new_id \<notin> set (map p_id (posts st))"
  shows "\<exists>p. createPost st now new_id u body =
            (Inr \<lparr>cv_id = new_id, cv_title = trim t, cv_slug = slug_spec t, cv_createdAt = now\<rparr>,
             st\<lparr>posts := posts st @ [p]\<rparr>)
          \<and> slug p = slug_spec t \<and> p_id p = new_id \<and> title p = trim t \<and> author p = u"
proof -
  from assms(4) have s: "slug_of_title t \<noteq> []" by (simp add: slug_refines)
  then have t: "trim t \<noteq> []" by (rule slug_nonempty_title)
  from assms(5) have f: "slug_of_title t \<notin> set (map slug (posts st))" by (simp add: slug_refines)
  show ?thesis
    using assms(1,2,3,6) s t f
    by (simp add: createPost_def Post_create_def slug_refines)
       (rule exI, rule conjI, rule refl, simp)
qed

lemma createPost_Inr:
  assumes "createPost st now new_id u body = (Inr v, st')"
  shows "\<exists>t p. cb_title body = Some t \<and> cv_slug v = slug_spec t
           \<and> posts st' = posts st @ [p] \<and> slug p = slug_spec t"
  using assms
  by (auto simp: createPost_def Post_create_def slug_refines
      split: option.splits if_splits sum.splits exn.splits)

text \<open>
  Claim C6. For every title, the slug that createPost derives, stores with the post and
  answers is the title lowercased, with each maximal run of non-alphanumeric characters
  replaced by a single hyphen and the leading and trailing hyphens trimmed: a request with
  a content, whose slug is not empty and not taken, stores a post with this slug, and
  whenever createPost succeeds the new post has this slug. The slug of "Hello, World!"
  is "hello-world". (Titles are strings of characters up to U+00FF.)
\<close>

theorem C6_slug_of_title:
  "slug_of_title t = slug_spec t
 \<and> slug_of_title ''Hello, World!'' = ''hello-world''
 \<and> (cb_title body = Some t \<and> cb_content body = Some c \<and> c \<noteq> [] \<and> slug_spec t \<noteq> []
      \<and> slug_spec t \<notin> set (map slug (posts st)) \<and> new_id \<notin> set (map p_id (posts st)) \<longrightarrow>
      (\<exists>p. createPost st now new_id u body =
              (Inr \<lparr>cv_id = new_id, cv_title = trim t, cv_slug = slug_spec t,
                    cv_createdAt = now\<rparr>,
               st\<lparr>posts := posts st @ [p]\<rparr>)
            \<and> slug p = slug_spec t \<and> p_id p = new_id \<and> title p = trim t \<and> author p = u))
 \<and> (createPost st now new_id u body = (Inr v, st') \<longrightarrow>
      (\<exists>t' p. cb_title body = Some t' \<and> cv_slug v = slug_spec t'
            \<and> posts st' = posts st @ [p] \<and> slug p = slug_spec t'))"
  using slug_refines[of t] slug_hello_world
    createPost_success[of body t c st new_id now u] createPost_Inr[of st now new_id u body v st']
  by (intro conjI impI) (simp_all only:, (elim conjE, simp)+)

lemma trim_hello_world: "trim ''Hello, World!'' = ''Hello, World!''"
  by (simp add: trim_def is_white_space_def)

theorem C6_slug_of_title_witness:
  "cb_title hello_body = Some ''Hello, World!'' \<and> cb_content hello_body = Some ''text''
 \<and> slug_spec ''Hello, World!'' = ''hello-world''
 \<and> (\<exists>p. createPost (blog\<lparr>posts := []\<rparr>) 5 ''0000000000000000000000b9''
            ''0000000000000000000000a1'' hello_body
          = (Inr \<lparr>cv_id = ''0000000000000000000000b9'', cv_title = ''Hello, World!'',
                  cv_slug = ''hello-world'', cv_createdAt = 5\<rparr>,
             blog\<lparr>posts := [p]\<rparr>)
        \<and> slug p = ''hello-world'')"
proof -
  note t = C6_slug_of_title[of "''Hello, World!''" hello_body "''text''" "blog\<lparr>posts := []\<rparr>"
      "''0000000000000000000000b9''" 5 "''0000000000000000000000a1''" undefined undefined]
  note r = t[THEN conjunct1] and h = t[THEN conjunct2, THEN conjunct1]
  from r h have s: "slug_spec ''Hello, World!'' = ''hello-world''" by simp
  have b: "cb_title hello_body = Some ''Hello, World!''" "cb_content hello_body = Some ''text''"
    by (simp_all add: hello_body_def)
  from t[THEN conjunct2, THEN conjunct2, THEN conjunct1] b s
  have "\<exists>p. createPost (blog\<lparr>posts := []\<rparr>) 5 ''0000000000000000000000b9''
            ''0000000000000000000000a1'' hello_body
          = (Inr \<lparr>cv_id = ''0000000000000000000000b9'', cv_title = trim ''Hello, World!'',
                  cv_slug = ''hello-world'', cv_createdAt = 5\<rparr>,
             blog\<lparr>posts := [] @ [p]\<rparr>)
        \<and> slug p = ''hello-world''"
    by auto
  then show ?thesis using b s by (simp add: trim_hello_world)
qed

section \<open>Duplicate slugs\<close>















section \<open>Deleting as a stranger\<close>

text \<open>
  Claim C8. deletePost on a stored post whose author is not the requester, and
  deleteComment on a stored comment whose author is not the requester, answer with
  status 401 and leave the store as it was.
\<close>

theorem C8_non_owner_delete:
  "(findById p_id (posts st) i = Some p \<and> author p \<noteq> u \<longrightarrow>
      deletePost st i u = (Inl (Status401 ''Not authorized to delete this post''), st))
 \<and> (findById c_id (comments st) j = Some c \<and> c_user c \<noteq> u \<longrightarrow>
      deleteComment st j u = (Inl (Status401 ''Not authorized to delete this comment''), st))"
  by (simp add: deletePost_def deleteComment_def)

theorem C8_non_owner_delete_witness:
  "findById p_id (posts blog) ''0000000000000000000000b1'' = Some hello_post
 \<and> author hello_post \<noteq> ''0000000000000000000000a2''
 \<and> deletePost blog ''0000000000000000000000b1'' ''0000000000000000000000a2''
      = (Inl (Status401 ''Not authorized to delete this post''), blog)
 \<and> findById c_id (comments blog) ''0000000000000000000000c0'' = Some root_comment
 \<and> c_user root_comment \<noteq> ''0000000000000000000000a2''
 \<and> deleteComment blog ''0000000000000000000000c0'' ''0000000000000000000000a2''
      = (Inl (Status401 ''Not authorized to delete this comment''), blog)"
proof -
  have a: "author hello_post \<noteq> ''0000000000000000000000a2''" by (simp add: hello_post_def)
  have c: "c_user root_comment \<noteq> ''0000000000000000000000a2''" by (simp add: root_comment_def)
  from C8_non_owner_delete[of blog "''0000000000000000000000b1''" hello_post
      "''0000000000000000000000a2''" "''0000000000000000000000c0''" root_comment]
    blog_hello blog_root a c
  show ?thesis by blast
qed

section \<open>Likes without duplicates\<close>

lemma likes_distinct_save:
  "likes_distinct st \<Longrightarrow> distinct (likes p) \<Longrightarrow> likes_distinct (st\<lparr>posts := save p_id p (posts st)\<rparr>)"
  using set_save[of p_id p "posts st"] by (auto simp: likes_distinct_def)

lemma likes_distinct_getPostById:
  "likes_distinct st \<Longrightarrow> likes_distinct (snd (getPostById st now i u))"
proof (cases "findById p_id (posts st) i")
  case None
  assume "likes_distinct st"
  with None show ?thesis by (simp add: getPostById_def)
next
  case (Some p)
  assume inv: "likes_distinct st"
  with findById_Some_set[OF Some] have "distinct (likes p)" by (simp add: likes_distinct_def)
  then have "distinct (likes (p\<lparr>views := num_add (views p) (number 1), updated_at := now\<rparr>))"
    by simp
  from likes_distinct_save[OF inv this] Some show ?thesis
    by (simp add: getPostById_def Let_def)
qed

lemma likes_distinct_likePost:
  "likes_distinct st \<Longrightarrow> likes_distinct (snd (likePost st now i u))"
proof (cases "findById p_id (posts st) i")
  case None
  assume "likes_distinct st"
  with None show ?thesis by (simp add: likePost_def)
next
  case (Some p)
  assume inv: "likes_distinct st"
  with findById_Some_set[OF Some] have "distinct (likes p)" by (simp add: likes_distinct_def)
  then have "distinct (likes (p\<lparr>likes := (if u \<in> set (likes p) then filter (\<lambda>l. l \<noteq> u) (likes p)
                                else likes p @ [u]), updated_at := now\<rparr>))" by simp
  from likes_distinct_save[OF inv this] Some show ?thesis
    by (simp add: likePost_def Let_def)
qed

lemma likes_distinct_createPost:
  "likes_distinct st \<Longrightarrow> likes_distinct (snd (createPost st now new_id u body))"
  by (auto simp: createPost_def Post_create_def likes_distinct_def
        split: option.splits sum.splits exn.splits if_splits)

lemma likes_distinct_deletePost:
  "likes_distinct st \<Longrightarrow> likes_distinct (snd (deletePost st i u))"
  using set_deleteOne[of "\<lambda>p. p_id p = i" "posts st"]
  by (auto simp: deletePost_def likes_distinct_def split: option.splits)

lemma likes_distinct_handle: "likes_distinct st \<Longrightarrow> likes_distinct (handle st r)"
proof (cases r)
  case (UpdateUserProfile u body)
  assume "likes_distinct st"
  then show ?thesis
    unfolding UpdateUserProfile by (simp add: likes_distinct_def posts_updateUserProfile)
next
  case (CreateComment now new_id i u body)
  assume "likes_distinct st"
  then show ?thesis
    unfolding CreateComment by (simp add: likes_distinct_def posts_createComment)
next
  case (DeleteComment i u)
  assume "likes_distinct st"
  then show ?thesis
    unfolding DeleteComment by (simp add: likes_distinct_def posts_deleteComment)
qed (simp_all add: likes_distinct_getPostById likes_distinct_likePost likes_distinct_createPost
       likes_distinct_deletePost)

lemma likes_distinct_run: "likes_distinct st \<Longrightarrow> likes_distinct (run st rs)"
  unfolding run_def by (induction rs arbitrary: st) (simp_all add: likes_distinct_handle)

text \<open>
  Claim C9. When no post of the store lists a user twice among its likes, this is still
  so after likePost and after every sequence of requests; in particular it holds in
  every store reached from a store without posts.
\<close>

theorem C9_likes_distinct:
  "(likes_distinct st \<longrightarrow> likes_distinct (snd (likePost st now i u)))
 \<and> (likes_distinct st \<longrightarrow> likes_distinct (run st rs))
 \<and> (posts st = [] \<longrightarrow> likes_distinct (run st rs))"
proof -
  have "posts st = [] \<Longrightarrow> likes_distinct st" by (simp add: likes_distinct_def)
  then show ?thesis using likes_distinct_likePost likes_distinct_run by blast
qed

theorem C9_likes_distinct_witness:
  "likes_distinct blog
 \<and> likes hello_post = [''0000000000000000000000a1'', ''0000000000000000000000a2'']
 \<and> likes_distinct (snd (likePost blog 5 ''0000000000000000000000b1'' ''0000000000000000000000a1''))
 \<and> likes_distinct (run blog
      [LikePost 5 ''0000000000000000000000b1'' ''0000000000000000000000a1'',
       LikePost 6 ''0000000000000000000000b1'' ''0000000000000000000000a1'',
       LikePost 7 ''0000000000000000000000b1'' ''0000000000000000000000a1'',
       CreatePost 8 ''0000000000000000000000b9'' ''0000000000000000000000a2'' hello_again,
       DeletePost ''0000000000000000000000b2'' ''0000000000000000000000a2''])
 \<and> likes_distinct (run (blog\<lparr>posts := []\<rparr>)
      [CreatePost 8 ''0000000000000000000000b9'' ''0000000000000000000000a2'' hello_again,
       LikePost 9 ''0000000000000000000000b9'' ''0000000000000000000000a1'',
       LikePost 10 ''0000000000000000000000b9'' ''0000000000000000000000a1''])"
proof -
  have l: "likes hello_post = [''0000000000000000000000a1'', ''0000000000000000000000a2'']"
    by (simp add: hello_post_def)
  have e: "posts (blog\<lparr>posts := []\<rparr>) = []" by simp
  from C9_likes_distinct[of blog 5 "''0000000000000000000000b1''" "''0000000000000000000000a1''"
      "[LikePost 5 ''0000000000000000000000b1'' ''0000000000000000000000a1'',
       LikePost 6 ''0000000000000000000000b1'' ''0000000000000000000000a1'',
       LikePost 7 ''0000000000000000000000b1'' ''0000000000000000000000a1'',
       CreatePost 8 ''0000000000000000000000b9'' ''0000000000000000000000a2'' hello_again,
       DeletePost ''0000000000000000000000b2'' ''0000000000000000000000a2'']"]
    C9_likes_distinct[of "blog\<lparr>posts := []\<rparr>" 5 "''0000000000000000000000b1''" "''0000000000000000000000a1''"
      "[CreatePost 8 ''0000000000000000000000b9'' ''0000000000000000000000a2'' hello_again,
       LikePost 9 ''0000000000000000000000b9'' ''0000000000000000000000a1'',
       LikePost 10 ''0000000000000000000000b9'' ''0000000000000000000000a1'']"]
    blog_likes_distinct l e
  show ?thesis by blast
qed

section \<open>The profile\<close>

lemma or_else_falsy: "\<not> truthy a \<Longrightarrow> or_else a b = b"
  by (simp add: or_else_def)

lemma or_else_empty: "or_else a b = Some [] \<Longrightarrow> b = Some []"
  by (auto simp: or_else_def truthy_def split: if_splits)

lemma updateUserProfile_found:
  assumes "findById u_id (users st) uid = Some usr"
  shows "updateUserProfile st uid body =
     (Inr (usr\<lparr>name := or_else (pb_name body) (name usr),
               bio := or_else (pb_bio body) (bio usr),
               avatar_url := (if truthy (pb_avatar body) then pb_avatar body else avatar_url usr)\<rparr>),
      st\<lparr>users := save u_id
         (usr\<lparr>name := or_else (pb_name body) (name usr),
               bio := or_else (pb_bio body) (bio usr),
               avatar_url := (if truthy (pb_avatar body) then pb_avatar body else avatar_url usr)\<rparr>)
         (users st)\<rparr>)"
  using assms by (simp add: updateUserProfile_def Let_def)

lemma updateUserProfile_falsy_name:
  "updateUserProfile st uid (body\<lparr>pb_name := Some []\<rparr>) = updateUserProfile st uid (body\<lparr>pb_name := None\<rparr>)"
  by (simp add: updateUserProfile_def or_else_def truthy_def split: option.split)

lemma updateUserProfile_falsy_bio:
  "updateUserProfile st uid (body\<lparr>pb_bio := Some []\<rparr>) = updateUserProfile st uid (body\<lparr>pb_bio := None\<rparr>)"
  by (simp add: updateUserProfile_def or_else_def truthy_def split: option.split)

lemma updateUserProfile_falsy_avatar:
  "updateUserProfile st uid (body\<lparr>pb_avatar := Some []\<rparr>) = updateUserProfile st uid (body\<lparr>pb_avatar := None\<rparr>)"
  by (simp add: updateUserProfile_def or_else_def truthy_def split: option.split)

lemma save_email_role:
  "email d = email e \<Longrightarrow> role d = role e \<Longrightarrow> findById u_id us (u_id d) = Some e \<Longrightarrow>
     map (\<lambda>w. (u_id w, email w, role w)) (save u_id d us) = map (\<lambda>w. (u_id w, email w, role w)) us"
  by (induction us) (auto simp: findById_def)

text \<open>
  Claim C10. For a stored user, updateUserProfile answers with the updated user and
  stores it; a falsy (absent or empty) name, bio or avatar leaves the stored value as it
  was, and a request with the empty string does what the request without the field does;
  name and bio are the empty string afterwards only if they were before; the email and the
  role of every user stay the same.
\<close>

theorem C10_profile_update:
  assumes "findById u_id (users st) uid = Some usr"
    and "updateUserProfile st uid body = (r, st')"
  shows "\<exists>usr'. r = Inr usr' \<and> findById u_id (users st') uid = Some usr'
      \<and> (\<not> truthy (pb_name body) \<longrightarrow> name usr' = name usr)
      \<and> (\<not> truthy (pb_bio body) \<longrightarrow> bio usr' = bio usr)
      \<and> (\<not> truthy (pb_avatar body) \<longrightarrow> avatar_url usr' = avatar_url usr)
      \<and> (name usr' = Some [] \<longrightarrow> name usr = Some [])
      \<and> (bio usr' = Some [] \<longrightarrow> bio usr = Some [])
      \<and> email usr' = email usr \<and> role usr' = role usr
      \<and> map (\<lambda>w. (u_id w, email w, role w)) (users st') = map (\<lambda>w. (u_id w, email w, role w)) (users st)
      \<and> updateUserProfile st uid (body\<lparr>pb_name := Some []\<rparr>) = updateUserProfile st uid (body\<lparr>pb_name := None\<rparr>)
      \<and> updateUserProfile st uid (body\<lparr>pb_bio := Some []\<rparr>) = updateUserProfile st uid (body\<lparr>pb_bio := None\<rparr>)
      \<and> updateUserProfile st uid (body\<lparr>pb_avatar := Some []\<rparr>) = updateUserProfile st uid (body\<lparr>pb_avatar := None\<rparr>)"
proof -
  let ?u = "usr\<lparr>name := or_else (pb_name body) (name usr),
               bio := or_else (pb_bio body) (bio usr),
               avatar_url := (if truthy (pb_avatar body) then pb_avatar body else avatar_url usr)\<rparr>"
  have key: "u_id usr = uid" using assms(1) by (rule findById_Some_key)
  have r: "r = Inr ?u" and st': "st' = st\<lparr>users := save u_id ?u (users st)\<rparr>"
    using assms(2) unfolding updateUserProfile_found[OF assms(1)] by simp_all
  have look: "findById u_id (users st') uid = Some ?u"
    using assms(1) key by (simp add: st' findById_save)
  have frame: "map (\<lambda>w. (u_id w, email w, role w)) (users st') = map (\<lambda>w. (u_id w, email w, role w)) (users st)"
    unfolding st' using assms(1) key by (simp add: save_email_role)
  have n: "name ?u = Some [] \<longrightarrow> name usr = Some []" using or_else_empty by auto
  have b: "bio ?u = Some [] \<longrightarrow> bio usr = Some []" using or_else_empty by auto
  show ?thesis
    using r look frame n b
    by (simp add: or_else_falsy updateUserProfile_falsy_name updateUserProfile_falsy_bio
          updateUserProfile_falsy_avatar)
qed

theorem C10_profile_update_witness:
  "findById u_id (users blog) ''0000000000000000000000a1'' = Some alice
 \<and> (\<exists>usr' st'. updateUserProfile blog ''0000000000000000000000a1''
         \<lparr>pb_name = Some [], pb_bio = Some ''Edits'', pb_avatar = None\<rparr> = (Inr usr', st')
       \<and> findById u_id (users st') ''0000000000000000000000a1'' = Some usr'
       \<and> name usr' = Some ''Alice'' \<and> bio usr' = Some ''Edits'' \<and> avatar_url usr' = None
       \<and> email usr' = ''alice@example.org'' \<and> role usr' = ''user'')"
proof -
  let ?body = "\<lparr>pb_name = Some [], pb_bio = Some ''Edits'', pb_avatar = None\<rparr>"
  obtain r st' where e: "updateUserProfile blog ''0000000000000000000000a1'' ?body = (r, st')"
    by (cases "updateUserProfile blog ''0000000000000000000000a1'' ?body")
  from C10_profile_update[OF blog_alice e] obtain usr' where
    "r = Inr usr'" "findById u_id (users st') ''0000000000000000000000a1'' = Some usr'"
    "\<not> truthy (pb_name ?body) \<longrightarrow> name usr' = name alice"
    "\<not> truthy (pb_avatar ?body) \<longrightarrow> avatar_url usr' = avatar_url alice"
    "email usr' = email alice" "role usr' = role alice"
    by blast
  moreover have "bio usr' = Some ''Edits''"
    using e \<open>r = Inr usr'\<close> blog_alice
    by (auto simp: updateUserProfile_def Let_def or_else_def truthy_def)
  ultimately show ?thesis
    using e blog_alice by (auto simp: truthy_def alice_def)
qed

end
